theory Spec2Isabelle
  imports Main "HOL-Library.Word"
begin

section \<open>Circuit renderer: the glyph alphabet and the merge of two glyphs\<close>

text \<open>
  A cell of the diagram is a C++ \<open>char\<close>, modelled as an 8-bit word.  The enumeration
  \<open>CharSet\<close> of \<open>draw.cpp\<close> gives the logical glyphs the values 0 to 12; every other
  byte is a label character that renders as itself, the blank being \<open>' '\<close> (32).
\<close>

type_synonym cchar = "8 word"

definition WIRE_LINE :: cchar where "WIRE_LINE = 0"
definition CONTROL_LINE :: cchar where "CONTROL_LINE = 1"
definition WIRE_CONTROL_CROSS :: cchar where "WIRE_CONTROL_CROSS = 2"
definition CONTROL :: cchar where "CONTROL = 3"
definition BOX_LEFT_WIRE :: cchar where "BOX_LEFT_WIRE = 4"
definition BOX_RIGHT_WIRE :: cchar where "BOX_RIGHT_WIRE = 5"
definition BOX_TOP_CONTROL :: cchar where "BOX_TOP_CONTROL = 6"
definition BOX_BOTTOM_CONTROL :: cchar where "BOX_BOTTOM_CONTROL = 7"
definition BOX_TOP_LEFT_CORNER :: cchar where "BOX_TOP_LEFT_CORNER = 8"
definition BOX_TOP_RIGHT_CORNER :: cchar where "BOX_TOP_RIGHT_CORNER = 9"
definition BOX_BOTTOM_LEFT_CORNER :: cchar where "BOX_BOTTOM_LEFT_CORNER = 10"
definition BOX_BOTTOM_RIGHT_CORNER :: cchar where "BOX_BOTTOM_RIGHT_CORNER = 11"
definition SWAP_X :: cchar where "SWAP_X = 12"

definition blank :: cchar where "blank = 32"

text \<open>
  \<open>c0 > c1\<close> on two \<open>char\<close>s.  Whether \<open>char\<close> is signed is left to the platform
  (signed on x86-64, unsigned on AArch64 Linux), so the comparison takes the signedness
  as its first argument.
\<close>

definition char_gt :: "bool \<Rightarrow> cchar \<Rightarrow> cchar \<Rightarrow> bool" where
  "char_gt sc c0 c1 = (if sc then sint c1 < sint c0 else unat c1 < unat c0)"

text \<open>
  \<open>merge_chars(char &c0, char c1)\<close>: the result is the new content of the cell \<open>c0\<close>.
  \<open>lo\<close> and \<open>hi\<close> are \<open>c0\<close> and \<open>c1\<close> after the conditional \<open>std::swap\<close>; the final
  \<open>std::swap\<close> leaves \<open>hi\<close> in the cell.
\<close>

definition merge_chars :: "bool \<Rightarrow> cchar \<Rightarrow> cchar \<Rightarrow> cchar" where
  "merge_chars sc c0 c1 =
    (if c0 = c1 then c0
     else if c0 = blank then c1
     else if c1 = CONTROL_LINE then
       (if c0 = CONTROL \<or> c0 = WIRE_CONTROL_CROSS then c0
        else if c0 = WIRE_LINE then WIRE_CONTROL_CROSS
        else CONTROL_LINE)
     else
       (let lo = (if char_gt sc c0 c1 then c1 else c0);
            hi = (if char_gt sc c0 c1 then c0 else c1)
        in if lo = WIRE_LINE \<and> (hi = BOX_TOP_LEFT_CORNER \<or> hi = BOX_TOP_RIGHT_CORNER)
             then BOX_BOTTOM_CONTROL
           else if lo = WIRE_LINE \<and>
                   (hi = BOX_BOTTOM_LEFT_CORNER \<or> hi = BOX_BOTTOM_RIGHT_CORNER)
             then BOX_TOP_CONTROL
           else if lo = BOX_TOP_LEFT_CORNER \<and> hi = BOX_BOTTOM_LEFT_CORNER
             then BOX_RIGHT_WIRE
           else if lo = BOX_TOP_RIGHT_CORNER \<and> hi = BOX_BOTTOM_RIGHT_CORNER
             then BOX_LEFT_WIRE
           else hi))"

section \<open>Circuit renderer: the layered schedule\<close>

text \<open>
  An instruction of the trace, as \<open>draw\<close> reads it: the ids of its target and control
  qudits, already converted to \<open>int\<close> by \<open>convertToIDs\<close>.  The operation name and the
  real parameters only decide the shape and the width of the box, which play no part in
  the assignment of layers, so the bookkeeping of \<open>boxes\<close> and \<open>layer_width\<close> is left out.
\<close>

record Instruction =
  targets :: "int list"
  controls :: "int list"

datatype draw_error =
    EmptyTargets   \<comment> \<open>\<open>wires.front()\<close> on an instruction without targets\<close>
  | OutOfRange     \<comment> \<open>\<open>std::out_of_range\<close> thrown by \<open>vector::at\<close>\<close>

text \<open>
  The inclusive span \<open>[min_dwire, max_dwire]\<close>: the smallest and the largest of the
  sorted targets, widened by every control.
\<close>

definition wire_span :: "Instruction \<Rightarrow> draw_error + (int \<times> int)" where
  "wire_span inst =
    (let wires = sort (targets inst)
     in if wires = [] then Inl EmptyTargets
        else Inr (fold (\<lambda>control (min_dwire, max_dwire).
                          (min control min_dwire, max control max_dwire))
                       (controls inst) (hd wires, last wires)))"

text \<open>
  \<open>for (auto i = min_dwire; i <= max_dwire; ++i) layer = std::max(layer, wire_layer.at(i));\<close>
  A negative \<open>i\<close> converts to a huge \<open>size_t\<close>, so \<open>at\<close> throws for it as for any index
  past the end.
\<close>

function max_layer :: "int list \<Rightarrow> int \<Rightarrow> int \<Rightarrow> int \<Rightarrow> draw_error + int" where
  "max_layer wire_layer i max_dwire layer =
    (if i \<le> max_dwire then
       (if 0 \<le> i \<and> nat i < length wire_layer
        then max_layer wire_layer (i + 1) max_dwire (max layer (wire_layer ! nat i))
        else Inl OutOfRange)
     else Inr layer)"
  by pat_completeness auto
termination
  by (relation "measure (\<lambda>(wire_layer, i, max_dwire, layer). nat (max_dwire + 1 - i))") auto

text \<open>\<open>for (auto i = min_dwire; i <= max_dwire; ++i) wire_layer.at(i) = layer;\<close>\<close>

function set_layer :: "int list \<Rightarrow> int \<Rightarrow> int \<Rightarrow> int \<Rightarrow> draw_error + int list" where
  "set_layer wire_layer i max_dwire layer =
    (if i \<le> max_dwire then
       (if 0 \<le> i \<and> nat i < length wire_layer
        then set_layer (wire_layer[nat i := layer]) (i + 1) max_dwire layer
        else Inl OutOfRange)
     else Inr wire_layer)"
  by pat_completeness auto
termination
  by (relation "measure (\<lambda>(wire_layer, i, max_dwire, layer). nat (max_dwire + 1 - i))") auto

declare max_layer.simps [simp del] set_layer.simps [simp del]

record schedule =
  layers :: "nat list list"
  wire_layer :: "int list"

text \<open>
  The body of the loop over the trace for the instruction number \<open>ref\<close>: compute the
  layer, open a new layer when the index equals the number of layers, append \<open>ref\<close> to
  the layer (\<open>layers.at(layer)\<close> throws past the end) and raise \<open>wire_layer\<close> on the span.
\<close>

definition place :: "nat \<Rightarrow> Instruction \<Rightarrow> schedule \<Rightarrow> draw_error + schedule" where
  "place ref inst s =
    (case wire_span inst of
       Inl err \<Rightarrow> Inl err
     | Inr (min_dwire, max_dwire) \<Rightarrow>
        (case max_layer (wire_layer s) min_dwire max_dwire (- 1) of
           Inl err \<Rightarrow> Inl err
         | Inr m \<Rightarrow>
            (let layer = m + 1;
                 ls = (if nat layer = length (layers s) then layers s @ [[]] else layers s)
             in if nat layer < length ls then
                  (case set_layer (wire_layer s) min_dwire max_dwire layer of
                     Inl err \<Rightarrow> Inl err
                   | Inr wl \<Rightarrow>
                       Inr \<lparr>layers = ls[nat layer := ls ! nat layer @ [ref]], wire_layer = wl\<rparr>)
                else Inl OutOfRange)))"

fun place_all :: "nat \<Rightarrow> Instruction list \<Rightarrow> schedule \<Rightarrow> draw_error + schedule" where
  "place_all ref [] s = Inr s"
| "place_all ref (inst # trace) s =
    (case place ref inst s of
       Inl err \<Rightarrow> Inl err
     | Inr s' \<Rightarrow> place_all (ref + 1) trace s')"

text \<open>
  The separation of a trace on \<open>num_wires\<close> wires into layers, as \<open>draw\<close> starts it:
  no layer yet, and \<open>wire_layer\<close> at \<open>-1\<close> on every wire.  (For an empty trace \<open>draw\<close>
  returns its fixed text before this loop; the loop itself would leave the initial
  schedule.)
\<close>

definition draw_layers :: "nat \<Rightarrow> Instruction list \<Rightarrow> draw_error + schedule" where
  "draw_layers num_wires trace =
     place_all 0 trace \<lparr>layers = [], wire_layer = replicate num_wires (- 1)\<rparr>"

section \<open>Argument conversion: types, host memory and the emitted IR\<close>

text \<open>
  The types that \<open>dispatchSubtype\<close> and \<open>gen\<close> switch on.  \<open>FloatType w\<close> stands for a
  float type other than \<open>f32\<close> and \<open>f64\<close>, of bit width \<open>w\<close>; \<open>NoneType\<close> for any type the
  switches send to their default case.  The size of an array type is a signed 64-bit
  number.
\<close>

datatype ty =
    IntegerType nat
  | Float32Type
  | Float64Type
  | FloatType nat
  | ComplexType ty
  | CharspanType
  | PointerType ty
  | StateType
  | StdvecType ty
  | StructType "ty list"
  | ArrayType ty int
  | TupleType "ty list"
  | NoneType

text \<open>
  Modelled from the spec: the declaration of \<open>cudaq::cc::ArrayType\<close> is not among the
  sources; the spec says that the size of an array may be unknown, and \<open>isUnknownSize\<close>
  compares the size with one reserved value, taken here as the least 64-bit integer.
\<close>

definition unknownSize :: int where
  "unknownSize = - (2 ^ 63)"

text \<open>
  An SSA value is the position of the operation that defines it in the block under
  construction; a null \<open>Value\<close> is \<open>None\<close>.  Floating-point payloads are kept as the bytes
  read from host memory, or as the decimal string the extended-precision path parses.
\<close>

type_synonym val = nat

datatype fconst = FloatBits "8 word list" | FloatDecimal string

datatype op =
    ConstantIntOp int nat
  | ConstantFloatOp fconst ty
  | ComplexConstantOp fconst fconst ty
  | AddressOfOp ty string
  | CastOp ty val
  | StdvecInitOp ty val val
  | UndefOp ty
  | ExtractValueOp ty val nat
  | InsertValueOp ty val val nat
  | AllocaOp ty
  | ComputePtrOp ty val int
  | StoreOp val val

text \<open>A global of a module: symbol name, type and bytes.\<close>

type_synonym global = "string \<times> ty \<times> 8 word list"

text \<open>
  What the emitters write to: the globals of the substitution module (\<open>substMod\<close>) and
  the block at the builder's insertion point.
\<close>

record bst =
  globals :: "global list"
  block :: "op list"

datatype error =
    NotImplemented string
  | AssertionFailure string
  | NullValue      \<comment> \<open>an operation built on a null \<open>Value\<close>\<close>
  | NullFunction   \<comment> \<open>\<open>getFunctionType\<close> on the null result of \<open>lookupSymbol\<close>\<close>

record PlatformSettings =
  isSimulator :: bool
  isRemote :: bool

text \<open>
  A \<open>cudaq::state\<close> as \<open>readStateData\<close> sees it.  \<open>to_host_buffer\<close> is the address of
  the buffer that \<open>new\<close> returns and \<open>to_host\<close> fills when the state lives on the GPU.
\<close>

record sim_state =
  is_on_gpu :: bool
  precision_fp32 :: bool
  tensor_data :: nat
  num_elements :: nat
  element_size :: nat
  to_host_buffer :: nat

record StateData =
  sd_data :: nat
  sd_size :: nat
  sd_elementSize :: nat

text \<open>
  The host side and the collaborators whose code is not among the sources, taken as
  parameters: byte-addressed memory (\<open>mem\<close> gives the byte read at an address at the time
  of the walk, after any copy from the GPU); the content of the \<open>std::string\<close>, the
  decimal rendering \<open>std::to_string\<close> of the \<open>long double\<close>, and the state object found at
  an address; the signedness of \<open>char\<close> and \<open>sizeof(void*)\<close>; \<open>getDataSize\<close> and
  \<open>getDataOffset\<close> as functions of the data-layout string; the symbol name that the
  string-literal interning gives to a content; and the two name constants
  \<open>cudaqGenPrefixName\<close> and \<open>targetDataLayoutAttrName\<close>.  Multi-byte scalars are read
  little-endian.
\<close>

record env =
  mem :: "nat \<Rightarrow> 8 word"
  string_at :: "nat \<Rightarrow> 8 word list"
  long_double_at :: "nat \<Rightarrow> string"
  state_at :: "nat \<Rightarrow> sim_state"
  char_is_signed :: bool
  pointer_bytes :: nat
  data_size :: "string \<Rightarrow> ty \<Rightarrow> nat"
  data_offset :: "string \<Rightarrow> ty list \<Rightarrow> nat \<Rightarrow> nat"
  cstring_name :: "8 word list \<Rightarrow> string"
  cudaqGenPrefixName :: string
  targetDataLayoutAttrName :: string

text \<open>
  Modelled from the spec: the macro \<open>TODO\<close> of \<open>cudaq/Todo.h\<close> is not among the sources;
  the spec says that the operation signals a not-implemented failure, which is fatal and
  halts the substitution.
\<close>

definition TODO :: "string \<Rightarrow> error + 'a" where
  "TODO msg = Inl (NotImplemented msg)"

text \<open>
  \<open>StateData::readStateData\<close>.  An \<open>assert\<close> that fails aborts; the releaser of the
  buffer is not modelled.
\<close>

definition readStateData :: "sim_state \<Rightarrow> error + StateData" where
  "readStateData s =
    (if is_on_gpu s then
       (if precision_fp32 s then
          (if element_size s = 8
           then Inr \<lparr>sd_data = to_host_buffer s, sd_size = num_elements s,
                     sd_elementSize = element_size s\<rparr>
           else Inl (AssertionFailure ''Incorrect complex<float> element size''))
        else if element_size s = 16
           then Inr \<lparr>sd_data = to_host_buffer s, sd_size = num_elements s,
                     sd_elementSize = element_size s\<rparr>
           else Inl (AssertionFailure ''Incorrect complex<double> element size''))
     else Inr \<lparr>sd_data = tensor_data s, sd_size = num_elements s,
               sd_elementSize = element_size s\<rparr>)"

text \<open>
  Reading host memory: \<open>n\<close> bytes at \<open>p\<close> as a little-endian number, or as they are;
  \<open>to_signed bits v\<close> is the value of the low \<open>bits\<close> bits of \<open>v\<close> in two's complement (the
  conversion of \<open>v\<close> to a signed integer of that width).
\<close>

definition load_le :: "(nat \<Rightarrow> 8 word) \<Rightarrow> nat \<Rightarrow> nat \<Rightarrow> nat" where
  "load_le m p n = foldr (\<lambda>i acc. unat (m (p + i)) + 256 * acc) [0..<n] 0"

definition load_bytes :: "(nat \<Rightarrow> 8 word) \<Rightarrow> nat \<Rightarrow> nat \<Rightarrow> 8 word list" where
  "load_bytes m p n = map (\<lambda>i. m (p + i)) [0..<n]"

definition to_signed :: "nat \<Rightarrow> int \<Rightarrow> int" where
  "to_signed bits v =
    (if v mod 2 ^ bits < 2 ^ (bits - 1) then v mod 2 ^ bits else v mod 2 ^ bits - 2 ^ bits)"

text \<open>\<open>builder.create\<close>: append the operation to the block; its result is its position.\<close>

definition emit :: "op \<Rightarrow> bst \<Rightarrow> val \<times> bst" where
  "emit x b = (length (block b), b\<lparr>block := block b @ [x]\<rparr>)"

text \<open>
  The scalar emitters, one per overload of \<open>genConstant\<close>.  The integer payload is the
  \<open>int64_t\<close> value handed to \<open>ConstantIntOp\<close>, next to the bit width.
\<close>

definition genIntegerConstant :: "int \<Rightarrow> nat \<Rightarrow> bst \<Rightarrow> val \<times> bst" where
  "genIntegerConstant v bits b = emit (ConstantIntOp v bits) b"

definition genConstant_bool :: "bool \<Rightarrow> bst \<Rightarrow> val \<times> bst" where
  "genConstant_bool v b = genIntegerConstant (if v then 1 else 0) 1 b"

definition genConstant_char :: "int \<Rightarrow> bst \<Rightarrow> val \<times> bst" where
  "genConstant_char v b = genIntegerConstant v 8 b"

definition genConstant_int16 :: "int \<Rightarrow> bst \<Rightarrow> val \<times> bst" where
  "genConstant_int16 v b = genIntegerConstant v 16 b"

definition genConstant_int32 :: "int \<Rightarrow> bst \<Rightarrow> val \<times> bst" where
  "genConstant_int32 v b = genIntegerConstant v 32 b"

definition genConstant_int64 :: "int \<Rightarrow> bst \<Rightarrow> val \<times> bst" where
  "genConstant_int64 v b = genIntegerConstant v 64 b"

definition genConstant_float :: "8 word list \<Rightarrow> bst \<Rightarrow> val \<times> bst" where
  "genConstant_float v b = emit (ConstantFloatOp (FloatBits v) Float32Type) b"

definition genConstant_double :: "8 word list \<Rightarrow> bst \<Rightarrow> val \<times> bst" where
  "genConstant_double v b = emit (ConstantFloatOp (FloatBits v) Float64Type) b"

definition genComplexConstant :: "8 word list \<Rightarrow> 8 word list \<Rightarrow> ty \<Rightarrow> bst \<Rightarrow> val \<times> bst" where
  "genComplexConstant re im fTy b =
     emit (ComplexConstantOp (FloatBits re) (FloatBits im) (ComplexType fTy)) b"

definition genConstant_complex_float :: "8 word list \<times> 8 word list \<Rightarrow> bst \<Rightarrow> val \<times> bst" where
  "genConstant_complex_float v b = genComplexConstant (fst v) (snd v) Float32Type b"

definition genConstant_complex_double :: "8 word list \<times> 8 word list \<Rightarrow> bst \<Rightarrow> val \<times> bst" where
  "genConstant_complex_double v b = genComplexConstant (fst v) (snd v) Float64Type b"

definition genConstant_long_double :: "ty \<Rightarrow> string \<Rightarrow> bst \<Rightarrow> val \<times> bst" where
  "genConstant_long_double fltTy v b = emit (ConstantFloatOp (FloatDecimal v) fltTy) b"

text \<open>The typed reads \<open>*static_cast<A *>(p)\<close> of the scalars.\<close>

definition read_bool :: "env \<Rightarrow> nat \<Rightarrow> bool" where
  "read_bool h p = (mem h p \<noteq> 0)"

definition read_char :: "env \<Rightarrow> nat \<Rightarrow> int" where
  "read_char h p = (if char_is_signed h then sint (mem h p) else uint (mem h p))"

definition read_int :: "env \<Rightarrow> nat \<Rightarrow> nat \<Rightarrow> int" where
  "read_int h bytes p = to_signed (8 * bytes) (int (load_le (mem h) p bytes))"

definition read_complex :: "env \<Rightarrow> nat \<Rightarrow> nat \<Rightarrow> 8 word list \<times> 8 word list" where
  "read_complex h bytes p = (load_bytes (mem h) p bytes, load_bytes (mem h) (p + bytes) bytes)"

text \<open>
  Modelled from the spec: \<open>IRBuilder::genCStringLiteralAppendNul\<close> is not among the
  sources; the spec says that the Charspan rule emits a C-style NUL-terminated global
  byte literal into the substitution module, always appending the NUL, by C-string
  literal interning in the target module: a literal that the module already holds is
  reused, a new one is added.
\<close>

definition genCStringLiteralAppendNul :: "env \<Rightarrow> 8 word list \<Rightarrow> bst \<Rightarrow> global \<times> bst" where
  "genCStringLiteralAppendNul h v b =
    (let buffer = v @ [0];
         g = (cstring_name h buffer, ArrayType (IntegerType 8) (int (length buffer)), buffer)
     in (g, if g \<in> set (globals b) then b else b\<lparr>globals := globals b @ [g]\<rparr>))"

text \<open>\<open>genConstant(OpBuilder &, const std::string &, ModuleOp)\<close>.\<close>

definition genConstant_string :: "env \<Rightarrow> 8 word list \<Rightarrow> bst \<Rightarrow> val \<times> bst" where
  "genConstant_string h v b =
    (let (cString, b1) = genCStringLiteralAppendNul h v b;
         (addr, b2) = emit (AddressOfOp (PointerType (fst (snd cString))) (fst cString)) b1;
         (cast, b3) = emit (CastOp (PointerType (IntegerType 8)) addr) b2;
         (size, b4) = emit (ConstantIntOp (int (length v)) 64) b3
     in emit (StdvecInitOp CharspanType cast size) b4)"

section \<open>Argument conversion: the recursive walk over aggregates\<close>

text \<open>
  The measure that decreases along the calls of the walk: a state pointer outranks the
  array of complex numbers that the remote path materialises, a tuple the record of its
  reversed members, and every aggregate each of its components.
\<close>

fun rank :: "ty \<Rightarrow> nat" where
  "rank (ComplexType t) = rank t + 1"
| "rank (PointerType t) = rank t + 5"
| "rank (StdvecType t) = rank t + 2"
| "rank (StructType ms) = sum_list (map rank ms) + 2"
| "rank (ArrayType t n) = rank t + 2"
| "rank (TupleType ms) = sum_list (map rank ms) + 3"
| "rank _ = 0"

text \<open>
  The second loop of \<open>genConstant(TupleType)\<close>: for each forward index \<open>i\<close>, extract the
  field \<open>n - i - 1\<close> of the reversed constant and insert it at \<open>i\<close>.
\<close>

definition tuple_rebuild :: "ty list \<Rightarrow> val \<Rightarrow> val \<times> bst \<Rightarrow> val \<times> bst" where
  "tuple_rebuild tys revCon start =
     fold (\<lambda>i (aggie, b).
             let (v, b1) = emit (ExtractValueOp (tys ! i) revCon (length tys - i - 1)) b
             in emit (InsertValueOp (StructType tys) aggie v i) b1)
          [0..<length tys] start"

text \<open>
  \<open>dispatchSubtype\<close> and the overloads of \<open>genConstant\<close> for a state, a tuple, a vector, a
  record and an array, with their loops.  They take the host, the data-layout string and
  the platform, then the type, the host address and the builder state; the result is a
  fatal error, or the value (\<open>None\<close> when the emission is skipped) and the new builder
  state.

  In \<open>genConstant_stdvec\<close> the difference \<open>delta\<close> of the two pointers is a \<open>ptrdiff_t\<close>,
  divided as an unsigned number of the same width by the element size, and the quotient
  is narrowed to the \<open>std::int32_t vecSize\<close>.  In \<open>genConstant_array\<close> the signed size
  of the type becomes the \<open>std::size_t arrSize\<close>.
\<close>

function
  dispatchSubtype :: "env \<Rightarrow> string \<Rightarrow> PlatformSettings \<Rightarrow> ty \<Rightarrow> nat \<Rightarrow> bst
                        \<Rightarrow> error + (val option \<times> bst)" and
  genConstant_state :: "env \<Rightarrow> string \<Rightarrow> PlatformSettings \<Rightarrow> nat \<Rightarrow> bst
                        \<Rightarrow> error + (val option \<times> bst)" and
  genConstant_tuple :: "env \<Rightarrow> string \<Rightarrow> PlatformSettings \<Rightarrow> ty list \<Rightarrow> nat \<Rightarrow> bst
                        \<Rightarrow> error + (val option \<times> bst)" and
  genConstant_stdvec :: "env \<Rightarrow> string \<Rightarrow> PlatformSettings \<Rightarrow> ty \<Rightarrow> nat \<Rightarrow> bst
                        \<Rightarrow> error + (val option \<times> bst)" and
  stdvec_loop :: "env \<Rightarrow> string \<Rightarrow> PlatformSettings \<Rightarrow> ty \<Rightarrow> int \<Rightarrow> val \<Rightarrow> int \<Rightarrow> nat \<Rightarrow> bst
                        \<Rightarrow> error + bst" and
  genConstant_struct :: "env \<Rightarrow> string \<Rightarrow> PlatformSettings \<Rightarrow> ty list \<Rightarrow> nat \<Rightarrow> bst
                        \<Rightarrow> error + (val option \<times> bst)" and
  struct_loop :: "env \<Rightarrow> string \<Rightarrow> PlatformSettings \<Rightarrow> ty list \<Rightarrow> nat \<Rightarrow> nat \<Rightarrow> val \<Rightarrow> bst
                        \<Rightarrow> error + (val \<times> bst)" and
  genConstant_array :: "env \<Rightarrow> string \<Rightarrow> PlatformSettings \<Rightarrow> ty \<Rightarrow> int \<Rightarrow> nat \<Rightarrow> bst
                        \<Rightarrow> error + (val option \<times> bst)" and
  array_loop :: "env \<Rightarrow> string \<Rightarrow> PlatformSettings \<Rightarrow> ty \<Rightarrow> int \<Rightarrow> nat \<Rightarrow> nat \<Rightarrow> nat \<Rightarrow> val \<Rightarrow> bst
                        \<Rightarrow> error + (val \<times> bst)"
where
  "dispatchSubtype h layout platform ty p b =
    (case ty of
       IntegerType w \<Rightarrow>
         (if w = 1 then Inr (apfst Some (genConstant_bool (read_bool h p) b))
          else if w = 8 then Inr (apfst Some (genConstant_char (read_char h p) b))
          else if w = 16 then Inr (apfst Some (genConstant_int16 (read_int h 2 p) b))
          else if w = 32 then Inr (apfst Some (genConstant_int32 (read_int h 4 p) b))
          else if w = 64 then Inr (apfst Some (genConstant_int64 (read_int h 8 p) b))
          else Inr (None, b))
     | Float32Type \<Rightarrow> Inr (apfst Some (genConstant_float (load_bytes (mem h) p 4) b))
     | Float64Type \<Rightarrow> Inr (apfst Some (genConstant_double (load_bytes (mem h) p 8) b))
     | FloatType w \<Rightarrow>
         (if 64 < w
          then Inr (apfst Some (genConstant_long_double (FloatType w) (long_double_at h p) b))
          else Inl (AssertionFailure ''fltTy.getIntOrFloatBitWidth() > 64''))
     | ComplexType t \<Rightarrow>
         (if t = Float32Type
            then Inr (apfst Some (genConstant_complex_float (read_complex h 4 p) b))
          else if t = Float64Type
            then Inr (apfst Some (genConstant_complex_double (read_complex h 8 p) b))
          else Inr (None, b))
     | CharspanType \<Rightarrow> Inr (apfst Some (genConstant_string h (string_at h p) b))
     | PointerType t \<Rightarrow>
         (if t = StateType then genConstant_state h layout platform p b else Inr (None, b))
     | StdvecType t \<Rightarrow> genConstant_stdvec h layout platform t p b
     | StructType ms \<Rightarrow> genConstant_struct h layout platform ms p b
     | ArrayType t n \<Rightarrow> genConstant_array h layout platform t n p b
     | TupleType ts \<Rightarrow> genConstant_tuple h layout platform ts p b
     | _ \<Rightarrow> Inr (None, b))"
| "genConstant_state h layout platform v b =
    (if isSimulator platform \<and> \<not> isRemote platform then
       (let (rawPtr, b1) =
              emit (ConstantIntOp (to_signed (pointer_bytes h * 8) (int v)) (pointer_bytes h * 8)) b
        in Inr (apfst Some (emit (CastOp (PointerType StateType) rawPtr) b1)))
     else if isSimulator platform \<and> isRemote platform then
       (case readStateData (state_at h v) of
          Inl err \<Rightarrow> Inl err
        | Inr stateData \<Rightarrow>
            genConstant_array h layout platform
              (if sd_elementSize stateData = 16 then ComplexType Float64Type
               else ComplexType Float32Type)
              (to_signed 64 (int (sd_size stateData))) (sd_data stateData) b)
     else TODO ''cudaq::state* argument synthesis for quantum hardware'')"
| "genConstant_tuple h layout platform tys p b =
    (if tys = [] then Inr (None, b)
     else
       (case genConstant_struct h layout platform (rev tys) p b of
          Inl err \<Rightarrow> Inl err
        | Inr (None, b1) \<Rightarrow> Inl NullValue
        | Inr (Some revCon, b1) \<Rightarrow>
            Inr (apfst Some (tuple_rebuild tys revCon (emit (UndefOp (StructType tys)) b1)))))"
| "genConstant_stdvec h layout platform eleTy p b =
    (let begin = load_le (mem h) p (pointer_bytes h);
         end = load_le (mem h) (p + pointer_bytes h) (pointer_bytes h);
         delta = to_signed (8 * pointer_bytes h) (int end - int begin)
     in if delta = 0 then Inr (None, b)
        else
          (let eleSize = data_size h layout eleTy
           in if eleSize = 0 then Inl (AssertionFailure ''element must have a size'')
              else
                (let vecSize = to_signed 32 ((delta mod 2 ^ (8 * pointer_bytes h)) div int eleSize);
                     (buffer, b1) = emit (AllocaOp (ArrayType eleTy vecSize)) b
                 in case stdvec_loop h layout platform eleTy vecSize buffer 0 begin b1 of
                      Inl err \<Rightarrow> Inl err
                    | Inr b2 \<Rightarrow>
                        (let (size, b3) = emit (ConstantIntOp vecSize 64) b2
                         in Inr (apfst Some
                                  (emit (StdvecInitOp (StdvecType eleTy) buffer size) b3))))))"
| "stdvec_loop h layout platform eleTy vecSize buffer i cursor b =
    (if i < vecSize then
       (case dispatchSubtype h layout platform eleTy cursor b of
          Inl err \<Rightarrow> Inl err
        | Inr (None, b1) \<Rightarrow>
            stdvec_loop h layout platform eleTy vecSize buffer (i + 1)
              (cursor + data_size h layout eleTy) b1
        | Inr (Some val, b1) \<Rightarrow>
            (let (atLoc, b2) = emit (ComputePtrOp (PointerType eleTy) buffer i) b1;
                 (st, b3) = emit (StoreOp val atLoc) b2
             in stdvec_loop h layout platform eleTy vecSize buffer (i + 1)
                  (cursor + data_size h layout eleTy) b3))
     else Inr b)"
| "genConstant_struct h layout platform members p b =
    (if members = [] then Inr (None, b)
     else
       (let (aggie, b1) = emit (UndefOp (StructType members)) b
        in case struct_loop h layout platform members p 0 aggie b1 of
             Inl err \<Rightarrow> Inl err
           | Inr (aggie', b2) \<Rightarrow> Inr (Some aggie', b2)))"
| "struct_loop h layout platform members p i aggie b =
    (if i < length members then
       (case dispatchSubtype h layout platform (members ! i)
               (p + data_offset h layout members i) b of
          Inl err \<Rightarrow> Inl err
        | Inr (None, b1) \<Rightarrow> struct_loop h layout platform members p (i + 1) aggie b1
        | Inr (Some v, b1) \<Rightarrow>
            (let (aggie', b2) = emit (InsertValueOp (StructType members) aggie v i) b1
             in struct_loop h layout platform members p (i + 1) aggie' b2))
     else Inr (aggie, b))"
| "genConstant_array h layout platform eleTy n p b =
    (if n = unknownSize then Inr (None, b)
     else
       (let (aggie, b1) = emit (UndefOp (ArrayType eleTy n)) b;
            arrSize = nat (n mod 2 ^ (8 * pointer_bytes h))
        in case array_loop h layout platform eleTy n arrSize 0 p aggie b1 of
             Inl err \<Rightarrow> Inl err
           | Inr (aggie', b2) \<Rightarrow> Inr (Some aggie', b2)))"
| "array_loop h layout platform eleTy n arrSize i cursor aggie b =
    (if i < arrSize then
       (case dispatchSubtype h layout platform eleTy cursor b of
          Inl err \<Rightarrow> Inl err
        | Inr (None, b1) \<Rightarrow>
            array_loop h layout platform eleTy n arrSize (i + 1)
              (cursor + data_size h layout eleTy) aggie b1
        | Inr (Some v, b1) \<Rightarrow>
            (let (aggie', b2) = emit (InsertValueOp (ArrayType eleTy n) aggie v i) b1
             in array_loop h layout platform eleTy n arrSize (i + 1)
                  (cursor + data_size h layout eleTy) aggie' b2))
     else Inr (aggie, b))"
  by pat_completeness auto

termination
proof (relation "inv_image (less_than <*lex*> less_than)
    (case_sum
      (case_sum
        (case_sum (\<lambda>(h, layout, platform, ty, p, b). (2 * rank ty + 1, 0))
                  (\<lambda>(h, layout, platform, v, b). (10, 0)))
        (case_sum (\<lambda>(h, layout, platform, tys, p, b). (2 * rank (TupleType tys), 0))
                  (\<lambda>(h, layout, platform, eleTy, p, b). (2 * rank (StdvecType eleTy), 0))))
      (case_sum
        (case_sum (\<lambda>(h, layout, platform, eleTy, vecSize, buffer, i, cursor, b).
                      (2 * rank (StdvecType eleTy) - 1, nat (vecSize - i)))
                  (\<lambda>(h, layout, platform, members, p, b). (2 * rank (StructType members), 0)))
        (case_sum (\<lambda>(h, layout, platform, members, p, i, aggie, b).
                      (2 * rank (StructType members) - 1, length members - i))
          (case_sum (\<lambda>(h, layout, platform, eleTy, n, p, b). (2 * rank (ArrayType eleTy n), 0))
                    (\<lambda>(h, layout, platform, eleTy, n, arrSize, i, cursor, aggie, b).
                      (2 * rank (ArrayType eleTy n) - 1, arrSize - i))))))",
    goal_cases)
  case 1
  show ?case by (intro wf_inv_image wf_lex_prod wf_less_than)
next
  case (8 h layout platform tys p b)
  have "sum_list (map rank (rev tys)) = sum_list (map rank tys)"
    by (simp add: rev_map [symmetric])
  then show ?case by simp
next
  case (14 h layout platform members p i aggie b)
  then have "rank (members ! i) \<le> sum_list (map rank members)"
    using elem_le_sum_list [of i "map rank members"] by simp
  then show ?case by simp
qed auto

declare dispatchSubtype.simps [simp del] genConstant_state.simps [simp del]
  genConstant_tuple.simps [simp del] genConstant_stdvec.simps [simp del]
  stdvec_loop.simps [simp del] genConstant_struct.simps [simp del]
  struct_loop.simps [simp del] genConstant_array.simps [simp del]
  array_loop.simps [simp del]

section \<open>Argument conversion: the converter and \<open>gen\<close>\<close>

text \<open>
  A \<open>ModuleOp\<close> is a handle; the modules live in a store indexed by handles.  Of a
  module the model keeps its attributes, the signatures of its functions, its globals
  and its \<open>ArgumentSubstitutionOp\<close>s (parameter index and block), each kind in the order
  of creation.
\<close>

record module_ir =
  attrs :: "(string \<times> string) list"
  funcs :: "(string \<times> ty list) list"
  mod_globals :: "global list"
  substs :: "(nat \<times> op list) list"

record world =
  heap :: "nat \<Rightarrow> module_ir"
  next_module :: nat

text \<open>
  The converter.  A member of \<open>substitutions\<close> is a handle of an
  \<open>ArgumentSubstitutionOp\<close>: its position among the \<open>substs\<close> of the substitution module.
\<close>

record ArgumentConverter =
  sourceModule :: nat
  substModule :: nat
  kernelName :: string
  platform :: PlatformSettings
  substitutions :: "nat list"

definition empty_module :: module_ir where
  "empty_module = \<lparr>attrs = [], funcs = [], mod_globals = [], substs = []\<rparr>"

text \<open>The constructor: \<open>substModule\<close> is a module created fresh.\<close>

definition ArgumentConverter_ctor ::
    "string \<Rightarrow> nat \<Rightarrow> PlatformSettings \<Rightarrow> world \<Rightarrow> ArgumentConverter \<times> world" where
  "ArgumentConverter_ctor kname src pf w =
    (\<lparr>sourceModule = src, substModule = next_module w, kernelName = kname,
      platform = pf, substitutions = []\<rparr>,
     w\<lparr>heap := (heap w)(next_module w := empty_module), next_module := next_module w + 1\<rparr>)"

text \<open>
  The lambda \<open>buildSubst\<close>: create the \<open>ArgumentSubstitutionOp\<close> for the index \<open>i\<close> at the
  end of the substitution module, give it a fresh block, run the emitter with the builder
  at the end of that block, and return the operation, whatever value the emitter
  returned.
\<close>

definition buildSubst ::
    "ArgumentConverter \<Rightarrow> nat \<Rightarrow> (bst \<Rightarrow> error + (val option \<times> bst)) \<Rightarrow> world
       \<Rightarrow> error + (nat \<times> world)" where
  "buildSubst c i genConstant w =
    (let m = heap w (substModule c);
         result = length (substs m)
     in case genConstant \<lparr>globals = mod_globals m, block = []\<rparr> of
          Inl err \<Rightarrow> Inl err
        | Inr (val, b) \<Rightarrow>
            Inr (result,
                 w\<lparr>heap := (heap w)(substModule c :=
                       m\<lparr>mod_globals := globals b, substs := substs m @ [(i, block b)]\<rparr>)\<rparr>))"

text \<open>
  The \<open>TypeSwitch\<close> of \<open>gen\<close>: the emitter that \<open>buildSubst\<close> is called with, or \<open>None\<close>
  where the switch returns a null operation without calling it.
\<close>

definition gen_switch ::
    "env \<Rightarrow> string \<Rightarrow> PlatformSettings \<Rightarrow> ty \<Rightarrow> nat
       \<Rightarrow> (bst \<Rightarrow> error + (val option \<times> bst)) option" where
  "gen_switch h dataLayout pf argTy argPtr =
    (case argTy of
       IntegerType w \<Rightarrow>
         (if w = 1 then Some (\<lambda>b. Inr (apfst Some (genConstant_bool (read_bool h argPtr) b)))
          else if w = 8 then Some (\<lambda>b. Inr (apfst Some (genConstant_char (read_char h argPtr) b)))
          else if w = 16 then Some (\<lambda>b. Inr (apfst Some (genConstant_int16 (read_int h 2 argPtr) b)))
          else if w = 32 then Some (\<lambda>b. Inr (apfst Some (genConstant_int32 (read_int h 4 argPtr) b)))
          else if w = 64 then Some (\<lambda>b. Inr (apfst Some (genConstant_int64 (read_int h 8 argPtr) b)))
          else None)
     | Float32Type \<Rightarrow>
         Some (\<lambda>b. Inr (apfst Some (genConstant_float (load_bytes (mem h) argPtr 4) b)))
     | Float64Type \<Rightarrow>
         Some (\<lambda>b. Inr (apfst Some (genConstant_double (load_bytes (mem h) argPtr 8) b)))
     | FloatType w \<Rightarrow>
         Some (\<lambda>b. if 64 < w
                    then Inr (apfst Some
                           (genConstant_long_double (FloatType w) (long_double_at h argPtr) b))
                    else Inl (AssertionFailure ''fltTy.getIntOrFloatBitWidth() > 64''))
     | ComplexType t \<Rightarrow>
         (if t = Float32Type
            then Some (\<lambda>b. Inr (apfst Some
                                (genConstant_complex_float (read_complex h 4 argPtr) b)))
          else if t = Float64Type
            then Some (\<lambda>b. Inr (apfst Some
                                (genConstant_complex_double (read_complex h 8 argPtr) b)))
          else None)
     | CharspanType \<Rightarrow>
         Some (\<lambda>b. Inr (apfst Some (genConstant_string h (string_at h argPtr) b)))
     | PointerType t \<Rightarrow>
         (if t = StateType then Some (genConstant_state h dataLayout pf argPtr) else None)
     | StdvecType t \<Rightarrow> Some (genConstant_stdvec h dataLayout pf t argPtr)
     | StructType ms \<Rightarrow> Some (genConstant_struct h dataLayout pf ms argPtr)
     | ArrayType t n \<Rightarrow> Some (genConstant_array h dataLayout pf t n argPtr)
     | TupleType ts \<Rightarrow> Some (genConstant_tuple h dataLayout pf ts argPtr)
     | _ \<Rightarrow> None)"

text \<open>
  The body of the loop of \<open>gen\<close> for the parameter \<open>i\<close>: read the data-layout attribute of
  the source module (the empty string when absent), switch on the type, and record the
  operation when it is not null.
\<close>

definition gen_arg ::
    "env \<Rightarrow> nat \<Rightarrow> ty \<Rightarrow> nat \<Rightarrow> ArgumentConverter \<times> world
       \<Rightarrow> error + (ArgumentConverter \<times> world)" where
  "gen_arg h i argTy argPtr cw =
    (let c = fst cw; w = snd cw;
         dataLayoutSpec =
           (case map_of (attrs (heap w (sourceModule c))) (targetDataLayoutAttrName h) of
              Some attr \<Rightarrow> attr
            | None \<Rightarrow> [])
     in case gen_switch h dataLayoutSpec (platform c) argTy argPtr of
          None \<Rightarrow> Inr (c, w)
        | Some genConstant \<Rightarrow>
            (case buildSubst c i genConstant w of
               Inl err \<Rightarrow> Inl err
             | Inr (subst, w') \<Rightarrow>
                 Inr (c\<lparr>substitutions := substitutions c @ [subst]\<rparr>, w')))"

fun gen_loop ::
    "env \<Rightarrow> nat \<Rightarrow> (ty \<times> nat) list \<Rightarrow> ArgumentConverter \<times> world
       \<Rightarrow> error + (ArgumentConverter \<times> world)" where
  "gen_loop h i [] cw = Inr cw"
| "gen_loop h i ((argTy, argPtr) # rest) cw =
    (case gen_arg h i argTy argPtr cw of
       Inl err \<Rightarrow> Inl err
     | Inr cw' \<Rightarrow> gen_loop h (i + 1) rest cw')"

text \<open>
  \<open>ArgumentConverter::gen\<close>: look the kernel up in the source module under its prefixed
  name, then walk the formal types zipped with the argument pointers.
\<close>

definition gen ::
    "env \<Rightarrow> nat list \<Rightarrow> ArgumentConverter \<times> world
       \<Rightarrow> error + (ArgumentConverter \<times> world)" where
  "gen h arguments cw =
    (case map_of (funcs (heap (snd cw) (sourceModule (fst cw))))
            (cudaqGenPrefixName h @ kernelName (fst cw)) of
       None \<Rightarrow> Inl NullFunction
     | Some inputs \<Rightarrow> gen_loop h 0 (zip inputs arguments) cw)"

section \<open>Sample hosts for the closed examples\<close>

text \<open>
  A packed layout (no padding) on a little-endian 64-bit host with signed \<open>char\<close>; the
  memory holds the listed bytes and zero elsewhere.
\<close>

fun sample_size :: "ty \<Rightarrow> nat" where
  "sample_size (IntegerType w) = (w + 7) div 8"
| "sample_size Float32Type = 4"
| "sample_size Float64Type = 8"
| "sample_size (FloatType w) = 16"
| "sample_size (ComplexType t) = 2 * sample_size t"
| "sample_size CharspanType = 32"
| "sample_size (PointerType t) = 8"
| "sample_size (StdvecType t) = 24"
| "sample_size (StructType ms) = sum_list (map sample_size ms)"
| "sample_size (ArrayType t n) = sample_size t * nat n"
| "sample_size (TupleType ms) = sum_list (map sample_size ms)"
| "sample_size _ = 0"

definition sample_host :: "(nat \<times> 8 word) list \<Rightarrow> env" where
  "sample_host bytes =
    \<lparr>mem = (\<lambda>a. case map_of bytes a of Some x \<Rightarrow> x | None \<Rightarrow> 0),
     string_at = (\<lambda>a. []),
     long_double_at = (\<lambda>a. ''0.000000''),
     state_at = (\<lambda>a. \<lparr>is_on_gpu = False, precision_fp32 = False, tensor_data = 0,
                          num_elements = 0, element_size = 16, to_host_buffer = 0\<rparr>),
     char_is_signed = True,
     pointer_bytes = 8,
     data_size = (\<lambda>layout. sample_size),
     data_offset = (\<lambda>layout ms i. sum_list (map sample_size (take i ms))),
     cstring_name = (\<lambda>content. ''cstr''),
     cudaqGenPrefixName = ''__nvqpp__mlirgen__'',
     targetDataLayoutAttrName = ''llvm.data_layout''\<rparr>"

definition local_simulator :: PlatformSettings where
  "local_simulator = \<lparr>isSimulator = True, isRemote = False\<rparr>"

definition quantum_hardware :: PlatformSettings where
  "quantum_hardware = \<lparr>isSimulator = False, isRemote = True\<rparr>"

definition empty_bst :: bst where
  "empty_bst = \<lparr>globals = [], block = []\<rparr>"

text \<open>
  A \<open>std::vector<char>\<close> object at the address \<open>0x100\<close> whose \<open>begin\<close> is \<open>0x1000\<close> and
  whose \<open>end\<close> is \<open>0x80001000\<close>: a vector of \<open>2^31\<close> one-byte elements.
\<close>

definition big_vector_host :: env where
  "big_vector_host = sample_host [(0x101, 0x10), (0x109, 0x10), (0x10B, 0x80)]"

section \<open>Reading an aggregate built by insertions\<close>





section \<open>What \<open>gen\<close> records, and what it leaves alone\<close>

text \<open>
  The types for which the switch of \<open>gen\<close> calls an emitter: integers of width 1, 8, 16,
  32 or 64, every float, complex numbers over \<open>f32\<close> or \<open>f64\<close>, the Charspan, the pointer
  to a state, vectors, records, arrays and tuples.
\<close>

fun dispatched :: "ty \<Rightarrow> bool" where
  "dispatched (IntegerType w) = (w = 1 \<or> w = 8 \<or> w = 16 \<or> w = 32 \<or> w = 64)"
| "dispatched (ComplexType t) = (t = Float32Type \<or> t = Float64Type)"
| "dispatched (PointerType t) = (t = StateType)"
| "dispatched StateType = False"
| "dispatched NoneType = False"
| "dispatched t = True"

text \<open>The indices, counted from \<open>i\<close>, of the dispatched types of a list.\<close>

fun kept :: "nat \<Rightarrow> ty list \<Rightarrow> nat list" where
  "kept i [] = []"
| "kept i (t # ts) = (if dispatched t then [i] else []) @ kept (Suc i) ts"

text \<open>
  A store whose every module holds the kernel \<open>kernel\<close> with the given formal types; the
  source module of the examples is the handle 0, and handles from 1 on are free.
\<close>

definition sample_world :: "ty list \<Rightarrow> world" where
  "sample_world inputs =
    \<lparr>heap = (\<lambda>handle. \<lparr>attrs = [], funcs = [(''__nvqpp__mlirgen__kernel'', inputs)],
                          mod_globals = [], substs = []\<rparr>),
     next_module = 1\<rparr>"

text \<open>
  A signature with a dispatched scalar, an integer width that the switch does not know,
  and a vector (empty in the examples).
\<close>

definition mixed_inputs :: "ty list" where
  "mixed_inputs = [IntegerType 32, IntegerType 7, StdvecType (IntegerType 32)]"

text \<open>The store in which the module at the handle \<open>s\<close> is replaced by \<open>m2\<close>.\<close>

definition with_source :: "nat \<Rightarrow> module_ir \<Rightarrow> world \<Rightarrow> world" where
  "with_source s m2 w = w\<lparr>heap := (heap w)(s := m2)\<rparr>"

text \<open>
  The relation between the converter and the store before and after some steps of \<open>gen\<close>
  that recorded substitutions for the parameter indices \<open>idx\<close>: the handles, the kernel
  name and the platform of the converter are kept; every module but the substitution
  module is unchanged; the substitution module keeps its attributes and functions and
  gains the \<open>ArgumentSubstitutionOp\<close>s \<open>new\<close> at its end, whose indices are \<open>idx\<close>; and the
  handles of exactly these operations are appended to \<open>substitutions\<close>.
\<close>

definition appended ::
    "nat list \<Rightarrow> ArgumentConverter \<times> world \<Rightarrow> ArgumentConverter \<times> world \<Rightarrow> bool" where
  "appended idx cw cw' =
    (sourceModule (fst cw') = sourceModule (fst cw) \<and>
     substModule (fst cw') = substModule (fst cw) \<and>
     kernelName (fst cw') = kernelName (fst cw) \<and>
     platform (fst cw') = platform (fst cw) \<and>
     (\<forall>x. x \<noteq> substModule (fst cw) \<longrightarrow> heap (snd cw') x = heap (snd cw) x) \<and>
     attrs (heap (snd cw') (substModule (fst cw))) = attrs (heap (snd cw) (substModule (fst cw))) \<and>
     funcs (heap (snd cw') (substModule (fst cw))) = funcs (heap (snd cw) (substModule (fst cw))) \<and>
     (\<exists>new. substs (heap (snd cw') (substModule (fst cw))) =
              substs (heap (snd cw) (substModule (fst cw))) @ new \<and>
            map fst new = idx \<and>
            substitutions (fst cw') = substitutions (fst cw) @
              [length (substs (heap (snd cw) (substModule (fst cw)))) ..<
               length (substs (heap (snd cw) (substModule (fst cw)))) + length new]))"

section \<open>Overlapping spans and the invariant of the schedule\<close>

text \<open>
  A sample trace on two wires: a gate on wire 0, a gate on wire 1, and a gate on wire 1
  controlled by wire 0.
\<close>

definition sample_trace :: "Instruction list" where
  "sample_trace =
    [\<lparr>targets = [0], controls = []\<rparr>,
     \<lparr>targets = [1], controls = []\<rparr>,
     \<lparr>targets = [1], controls = [0]\<rparr>]"

text \<open>Two instructions overlap when their inclusive wire spans share a wire.\<close>

definition spans_overlap :: "Instruction \<Rightarrow> Instruction \<Rightarrow> bool" where
  "spans_overlap a b =
    (case (wire_span a, wire_span b) of
       (Inr (lo1, hi1), Inr (lo2, hi2)) \<Rightarrow> max lo1 lo2 \<le> min hi1 hi2
     | _ \<Rightarrow> False)"

text \<open>
  What holds of the schedule after the first \<open>n\<close> instructions of the trace \<open>tr\<close>: no entry
  of \<open>wire_layer\<close> is below \<open>-1\<close>; every member \<open>j\<close> of a layer \<open>l\<close> is one of these
  instructions, and \<open>wire_layer\<close> is at least \<open>l\<close> on every wire of its span; each of
  the \<open>n\<close> instructions is in some layer; and two different members of one layer do not
  overlap.
\<close>

definition sched_inv :: "Instruction list \<Rightarrow> nat \<Rightarrow> schedule \<Rightarrow> bool" where
  "sched_inv tr n s =
    ((\<forall>x\<in>set (wire_layer s). - 1 \<le> x) \<and>
     (\<forall>l<length (layers s). \<forall>j\<in>set (layers s ! l).
        j < n \<and>
        (\<exists>lo hi. wire_span (tr ! j) = Inr (lo, hi) \<and>
           (\<forall>k. lo \<le> k \<and> k \<le> hi \<longrightarrow>
                0 \<le> k \<and> nat k < length (wire_layer s) \<and> int l \<le> wire_layer s ! nat k))) \<and>
     (\<forall>j<n. \<exists>l<length (layers s). j \<in> set (layers s ! l)) \<and>
     (\<forall>l<length (layers s). \<forall>j\<in>set (layers s ! l). \<forall>k\<in>set (layers s ! l).
        j \<noteq> k \<longrightarrow> \<not> spans_overlap (tr ! j) (tr ! k)))"

section \<open>Properties of the glyph merge\<close>

lemmas CharSet_defs =
  WIRE_LINE_def CONTROL_LINE_def WIRE_CONTROL_CROSS_def CONTROL_def BOX_LEFT_WIRE_def
  BOX_RIGHT_WIRE_def BOX_TOP_CONTROL_def BOX_BOTTOM_CONTROL_def BOX_TOP_LEFT_CORNER_def
  BOX_TOP_RIGHT_CORNER_def BOX_BOTTOM_LEFT_CORNER_def BOX_BOTTOM_RIGHT_CORNER_def
  SWAP_X_def blank_def

lemma merge_chars_same: "merge_chars sc c c = c"
  by (simp add: merge_chars_def)

lemma merge_chars_into_blank: "merge_chars sc blank c = c"
  by (simp add: merge_chars_def)

lemma merge_chars_blank_into:
  "merge_chars sc c blank = (if char_gt sc c blank then c else blank)"
  by (auto simp: merge_chars_def Let_def CharSet_defs)

text \<open>
  Claim C4, as stated: the merge is idempotent for identical inputs and commutative for
  blank versus non-blank.  The second half fails on the code: a blank merged into a wire
  cell erases the wire (the larger value, 32, is kept), while a wire merged into a blank
  cell gives the wire.  This holds for both signednesses of \<open>char\<close>.
\<close>

theorem merge_chars_blank_commute_counterexample:
  "merge_chars True WIRE_LINE blank \<noteq> merge_chars True blank WIRE_LINE \<and>
   merge_chars False WIRE_LINE blank \<noteq> merge_chars False blank WIRE_LINE"
  by (simp add: merge_chars_def char_gt_def Let_def CharSet_defs)

text \<open>
  Claim C4, amended: merging a glyph with itself leaves the cell unchanged; merging any
  glyph into a blank cell gives that glyph; merging a blank into a cell holding \<open>c\<close> keeps
  the larger of \<open>c\<close> and the blank, so the two orders agree exactly when \<open>c\<close> is not
  smaller than the blank (a label character), and differ for every glyph of the alphabet
  (values 0 to 12), which the blank replaces.
\<close>

theorem merge_chars_idempotent_blank:
  "merge_chars sc c c = c \<and>
   merge_chars sc blank c = c \<and>
   merge_chars sc c blank = (if char_gt sc c blank then c else blank) \<and>
   (merge_chars sc c blank = merge_chars sc blank c) = (\<not> char_gt sc blank c)"
proof -
  have ord: "(c = blank \<or> char_gt sc c blank) = (\<not> char_gt sc blank c)"
  proof (cases sc)
    case True
    have "(c = blank) = (sint c = sint blank)"
      by (auto dest: signed_word_eqI)
    with True show ?thesis
      by (auto simp: char_gt_def)
  next
    case False
    have "(c = blank) = (unat c = unat blank)"
      by (auto simp: word_unat_eq_iff)
    with False show ?thesis
      by (auto simp: char_gt_def)
  qed
  have "(merge_chars sc c blank = merge_chars sc blank c) = (c = blank \<or> char_gt sc c blank)"
    by (auto simp: merge_chars_blank_into merge_chars_into_blank)
  with ord show ?thesis
    by (simp add: merge_chars_same merge_chars_into_blank merge_chars_blank_into)
qed

section \<open>Properties of the scalar and state emitters\<close>

lemma to_signed_mod: "to_signed bits v mod 2 ^ bits = v mod 2 ^ bits"
  by (simp add: to_signed_def)

lemma upt_0_8: "[0..<8] = [0, 1, 2, 3, 4, 5, 6, 7]"
  by (simp add: upt_rec)

text \<open>
  Claim C7: for a Charspan argument with byte content \<open>v\<close>, the emitter interns a global
  whose bytes are \<open>v\<close> followed by a NUL (one byte longer than \<open>v\<close>), and emits the
  address of that global, its cast to a byte pointer, the 64-bit constant \<open>|v|\<close> (the
  length before the NUL) and the span-init that pairs the cast pointer with that size.
\<close>

theorem genConstant_string_nul_and_size:
  "fst (genConstant_string h v b) = length (block b) + 3 \<and>
   block (snd (genConstant_string h v b)) =
     block b @
       [AddressOfOp (PointerType (ArrayType (IntegerType 8) (int (length (v @ [0])))))
          (cstring_name h (v @ [0])),
        CastOp (PointerType (IntegerType 8)) (length (block b)),
        ConstantIntOp (int (length v)) 64,
        StdvecInitOp CharspanType (length (block b) + 1) (length (block b) + 2)] \<and>
   (cstring_name h (v @ [0]), ArrayType (IntegerType 8) (int (length (v @ [0]))), v @ [0])
     \<in> set (globals (snd (genConstant_string h v b))) \<and>
   last (v @ [0]) = 0 \<and> length (v @ [0]) = length v + 1"
  by (simp add: genConstant_string_def genCStringLiteralAppendNul_def emit_def Let_def)

text \<open>
  Claim C5: on a local simulator (\<open>isSimulator\<close> and not \<open>isRemote\<close>) the emitted chain
  for a state argument is an integer constant of \<open>sizeof(void*) * 8\<close> bits whose bits are
  those of the host pointer, followed by the cast of that constant to
  \<open>Pointer(StateHandle)\<close>, which is the value returned.
\<close>

theorem genConstant_state_simulator_local:
  assumes "isSimulator pf" and "\<not> isRemote pf"
  shows "genConstant_state h layout pf v b =
           Inr (Some (length (block b) + 1),
                b\<lparr>block := block b @
                   [ConstantIntOp (to_signed (pointer_bytes h * 8) (int v)) (pointer_bytes h * 8),
                    CastOp (PointerType StateType) (length (block b))]\<rparr>) \<and>
         to_signed (pointer_bytes h * 8) (int v) mod 2 ^ (pointer_bytes h * 8) =
           int v mod 2 ^ (pointer_bytes h * 8)"
  using assms by (simp add: genConstant_state.simps emit_def to_signed_mod)

theorem genConstant_state_simulator_local_witness:
  "isSimulator local_simulator \<and> \<not> isRemote local_simulator \<and>
   genConstant_state ((sample_host [])\<lparr>pointer_bytes := 4\<rparr>) [] local_simulator 0x7FFE1000
       empty_bst =
     Inr (Some 1,
          \<lparr>globals = [],
           block = [ConstantIntOp 0x7FFE1000 32, CastOp (PointerType StateType) 0]\<rparr>)"
  using genConstant_state_simulator_local
          [of local_simulator "(sample_host [])\<lparr>pointer_bytes := 4\<rparr>" "[]" "0x7FFE1000" empty_bst]
  by (simp add: local_simulator_def empty_bst_def sample_host_def to_signed_def)

text \<open>
  Claim C6: when \<open>isSimulator\<close> is false (whatever \<open>isRemote\<close>), the emission for a state
  argument produces no value: it ends in the not-implemented failure, from the emitter
  itself, from the recursive dispatch, and from the loop of \<open>gen\<close>, which stops there.
\<close>

theorem genConstant_state_hardware_fails:
  assumes "\<not> isSimulator pf"
  shows "genConstant_state h layout pf v b =
           Inl (NotImplemented ''cudaq::state* argument synthesis for quantum hardware'') \<and>
         dispatchSubtype h layout pf (PointerType StateType) v b =
           Inl (NotImplemented ''cudaq::state* argument synthesis for quantum hardware'') \<and>
         gen_loop h i ((PointerType StateType, v) # rest) (c\<lparr>platform := pf\<rparr>, w) =
           Inl (NotImplemented ''cudaq::state* argument synthesis for quantum hardware'')"
  using assms
  by (simp add: genConstant_state.simps dispatchSubtype.simps TODO_def gen_arg_def
      gen_switch_def buildSubst_def Let_def)

theorem genConstant_state_hardware_fails_witness:
  "\<not> isSimulator quantum_hardware \<and>
   genConstant_state (sample_host []) [] quantum_hardware 0x1000 empty_bst =
     Inl (NotImplemented ''cudaq::state* argument synthesis for quantum hardware'')"
  using genConstant_state_hardware_fails
          [of quantum_hardware "sample_host []" "[]" "0x1000" empty_bst]
  by (simp add: quantum_hardware_def)

section \<open>Properties of the aggregate walk\<close>

text \<open>
  Claim C10: for a record type with zero fields the emission is skipped: no value is
  produced and nothing is emitted, by the record emitter and by the dispatch alike,
  exactly as for an empty tuple.
\<close>

theorem empty_record_skipped:
  "genConstant_struct h layout pf [] p b = Inr (None, b) \<and>
   dispatchSubtype h layout pf (StructType []) p b = Inr (None, b) \<and>
   genConstant_struct h layout pf [] p b = genConstant_tuple h layout pf [] p b"
  by (simp add: genConstant_struct.simps genConstant_tuple.simps dispatchSubtype.simps)

lemma to_signed_32_id: "0 \<le> v \<Longrightarrow> v < 2 ^ 31 \<Longrightarrow> to_signed 32 v = v"
  by (simp add: to_signed_def)

text \<open>
  The vector emitter on a well-formed vector whose element count
  \<open>n = (end - begin) / sizeof(T')\<close> is below \<open>2^31\<close>: an allocation of \<open>T'[n]\<close>, the
  element loop, then the 64-bit length constant \<open>n\<close> and the span-init of the buffer with
  that length.
\<close>

lemma genConstant_stdvec_in_range:
  fixes h :: env
  defines "W \<equiv> 8 * pointer_bytes h"
  assumes lt: "load_le (mem h) p (pointer_bytes h) <
               load_le (mem h) (p + pointer_bytes h) (pointer_bytes h)"
    and fit: "int (load_le (mem h) (p + pointer_bytes h) (pointer_bytes h)) < 2 ^ W"
    and sz: "data_size h layout eleTy \<noteq> 0"
    and n: "n = (load_le (mem h) (p + pointer_bytes h) (pointer_bytes h) -
                 load_le (mem h) p (pointer_bytes h)) div data_size h layout eleTy"
    and small: "n < 2 ^ 31"
  shows "genConstant_stdvec h layout pf eleTy p b =
           (case stdvec_loop h layout pf eleTy (int n) (length (block b)) 0
                   (load_le (mem h) p (pointer_bytes h))
                   (b\<lparr>block := block b @ [AllocaOp (ArrayType eleTy (int n))]\<rparr>) of
              Inl err \<Rightarrow> Inl err
            | Inr b2 \<Rightarrow>
                Inr (Some (length (block b2) + 1),
                     b2\<lparr>block := block b2 @
                        [ConstantIntOp (int n) 64,
                         StdvecInitOp (StdvecType eleTy) (length (block b))
                           (length (block b2))]\<rparr>))"
proof -
  let ?b = "load_le (mem h) p (pointer_bytes h)"
  let ?e = "load_le (mem h) (p + pointer_bytes h) (pointer_bytes h)"
  let ?d = "int ?e - int ?b"
  from lt have d0: "0 < ?d" by simp
  have "?d \<le> int ?e" by simp
  then have d1: "?d < 2 ^ W" using fit by (rule le_less_trans)
  have m: "to_signed W ?d mod 2 ^ W = ?d"
    using d0 d1 by (simp add: to_signed_mod)
  have nz: "to_signed W ?d \<noteq> 0"
  proof
    assume "to_signed W ?d = 0"
    with m d0 show False by simp
  qed
  from lt have "int n = ?d div int (data_size h layout eleTy)"
    by (simp add: n zdiv_int of_nat_diff)
  moreover from small have "int n < 2 ^ 31" by (simp flip: of_nat_less_iff)
  ultimately have v: "to_signed 32 (?d div int (data_size h layout eleTy)) = int n"
    using to_signed_32_id [of "int n"] by simp
  show ?thesis
    using nz sz m v
    by (simp add: genConstant_stdvec.simps Let_def W_def emit_def split: sum.splits)
qed

lemma big_vector_begin: "load_le (mem big_vector_host) 0x100 8 = 0x1000"
  by (simp add: big_vector_host_def load_le_def sample_host_def upt_0_8)

lemma big_vector_end: "load_le (mem big_vector_host) 0x108 8 = 0x80001000"
  by (simp add: big_vector_host_def load_le_def sample_host_def upt_0_8)

text \<open>
  Claim C3 at a vector of \<open>2^31\<close> one-byte elements (\<open>end - begin = 2^31\<close>, element size
  1): the quotient \<open>2^31\<close> does not fit the \<open>std::int32_t vecSize\<close>, so the code emits an
  allocation and a 64-bit length constant of \<open>-2^31\<close> and stores no element, where the
  claim asks for a span of length \<open>2^31\<close>.
\<close>

theorem genConstant_stdvec_big_vector:
  "genConstant_stdvec big_vector_host [] local_simulator (IntegerType 8) 0x100 empty_bst =
     Inr (Some 2,
          \<lparr>globals = [],
           block = [AllocaOp (ArrayType (IntegerType 8) (- 2147483648)),
                    ConstantIntOp (- 2147483648) 64,
                    StdvecInitOp (StdvecType (IntegerType 8)) 0 1]\<rparr>) \<and>
   (int (load_le (mem big_vector_host) 0x108 8) - int (load_le (mem big_vector_host) 0x100 8))
      div int (data_size big_vector_host [] (IntegerType 8)) = 2147483648"
proof -
  have pb: "pointer_bytes big_vector_host = 8"
    and ds: "data_size big_vector_host [] (IntegerType 8) = 1"
    by (simp_all add: big_vector_host_def sample_host_def)
  show ?thesis
    using big_vector_begin big_vector_end
    by (simp add: genConstant_stdvec.simps stdvec_loop.simps pb ds to_signed_def emit_def
        empty_bst_def Let_def)
qed

section \<open>The tuple emitter\<close>








lemma genConstant_tuple_fails_with_record:
  assumes "tys \<noteq> []" and "genConstant_struct h layout pf (rev tys) p b = Inl err"
  shows "genConstant_tuple h layout pf tys p b = Inl err"
  using assms by (simp add: genConstant_tuple.simps)


lemma upt_0_4: "[0..<4] = [0, 1, 2, 3]"
  by (simp add: upt_rec)




section \<open>Properties of \<open>gen\<close>\<close>

lemma appended_refl: "appended [] cw cw"
  by (simp add: appended_def)

lemma appended_trans:
  assumes a: "appended i1 cw cw1" and b: "appended i2 cw1 cw2"
  shows "appended (i1 @ i2) cw cw2"
proof -
  let ?s = "substModule (fst cw)"
  from a have sm: "substModule (fst cw1) = ?s" by (simp add: appended_def)
  from a obtain new1 where
    n1: "substs (heap (snd cw1) ?s) = substs (heap (snd cw) ?s) @ new1"
        "map fst new1 = i1"
        "substitutions (fst cw1) = substitutions (fst cw) @
           [length (substs (heap (snd cw) ?s)) ..< length (substs (heap (snd cw) ?s)) + length new1]"
    unfolding appended_def by (elim conjE exE)
  from b obtain new2 where
    n2: "substs (heap (snd cw2) ?s) = substs (heap (snd cw1) ?s) @ new2"
        "map fst new2 = i2"
        "substitutions (fst cw2) = substitutions (fst cw1) @
           [length (substs (heap (snd cw1) ?s)) ..< length (substs (heap (snd cw1) ?s)) + length new2]"
    unfolding appended_def sm by (elim conjE exE)
  have upt: "[length (substs (heap (snd cw) ?s)) ..<
              length (substs (heap (snd cw) ?s)) + length (new1 @ new2)] =
             [length (substs (heap (snd cw) ?s)) ..< length (substs (heap (snd cw) ?s)) + length new1] @
             [length (substs (heap (snd cw) ?s)) + length new1 ..<
              length (substs (heap (snd cw) ?s)) + length new1 + length new2]"
    using upt_add_eq_append [of "length (substs (heap (snd cw) ?s))"
        "length (substs (heap (snd cw) ?s)) + length new1" "length new2"]
    by (simp add: add.assoc)
  have ex: "\<exists>new. substs (heap (snd cw2) ?s) = substs (heap (snd cw) ?s) @ new \<and>
            map fst new = i1 @ i2 \<and>
            substitutions (fst cw2) = substitutions (fst cw) @
              [length (substs (heap (snd cw) ?s)) ..< length (substs (heap (snd cw) ?s)) + length new]"
    apply (rule exI [of _ "new1 @ new2"])
    apply (simp only: upt)
    apply (simp add: n1 n2)
    done
  from a b sm have rest: "sourceModule (fst cw2) = sourceModule (fst cw)"
    "substModule (fst cw2) = ?s"
    "kernelName (fst cw2) = kernelName (fst cw)"
    "platform (fst cw2) = platform (fst cw)"
    "\<forall>x. x \<noteq> ?s \<longrightarrow> heap (snd cw2) x = heap (snd cw) x"
    "attrs (heap (snd cw2) ?s) = attrs (heap (snd cw) ?s)"
    "funcs (heap (snd cw2) ?s) = funcs (heap (snd cw) ?s)"
    by (simp_all add: appended_def)
  show ?thesis
    unfolding appended_def using rest ex by (intro conjI)
qed


lemma gen_switch_None: "(gen_switch h dl pf t p = None) = (\<not> dispatched t)"
  by (cases t) (auto simp: gen_switch_def)

lemma buildSubst_effect:
  assumes "buildSubst c i g w = Inr (s, w')"
  shows "\<exists>b :: bst. s = length (substs (heap w (substModule c))) \<and>
           w' = w\<lparr>heap := (heap w)(substModule c :=
                    (heap w (substModule c))
                      \<lparr>mod_globals := globals b,
                       substs := substs (heap w (substModule c)) @ [(i, block b)]\<rparr>)\<rparr>"
proof (cases "g \<lparr>globals = mod_globals (heap w (substModule c)), block = []\<rparr>")
  case (Inl err)
  with assms show ?thesis by (simp add: buildSubst_def Let_def)
next
  case (Inr r)
  obtain v b where r: "r = (v, b)" by (cases r)
  from assms Inr r have "s = length (substs (heap w (substModule c)))"
    and "w' = w\<lparr>heap := (heap w)(substModule c :=
                    (heap w (substModule c))
                      \<lparr>mod_globals := globals b,
                       substs := substs (heap w (substModule c)) @ [(i, block b)]\<rparr>)\<rparr>"
    by (simp_all add: buildSubst_def Let_def)
  then show ?thesis by (intro exI [of _ b] conjI)
qed

lemma gen_arg_appended:
  assumes "gen_arg h i t p cw = Inr cw'"
  shows "appended (if dispatched t then [i] else []) cw cw'"
proof -
  obtain c w where cw: "cw = (c, w)" by (cases cw)
  let ?dl = "case map_of (attrs (heap w (sourceModule c))) (targetDataLayoutAttrName h) of
               Some attr \<Rightarrow> attr | None \<Rightarrow> []"
  show ?thesis
  proof (cases "gen_switch h ?dl (platform c) t p")
    case None
    then have "\<not> dispatched t" by (simp add: gen_switch_None)
    moreover from None assms cw have "cw' = cw" by (simp add: gen_arg_def)
    ultimately show ?thesis by (simp add: appended_refl)
  next
    case (Some g)
    have d: "dispatched t"
      using Some gen_switch_None [of h ?dl "platform c" t p] by simp
    from Some assms cw obtain s w' where
      bs: "buildSubst c i g w = Inr (s, w')" and
      cw': "cw' = (c\<lparr>substitutions := substitutions c @ [s]\<rparr>, w')"
      by (cases "buildSubst c i g w") (auto simp: gen_arg_def)
    from buildSubst_effect [OF bs] obtain b :: bst where
      s: "s = length (substs (heap w (substModule c)))" and
      w': "w' = w\<lparr>heap := (heap w)(substModule c :=
                    (heap w (substModule c))
                      \<lparr>mod_globals := globals b,
                       substs := substs (heap w (substModule c)) @ [(i, block b)]\<rparr>)\<rparr>"
      by (elim exE conjE)
    have ex: "\<exists>new. substs (heap w' (substModule c)) = substs (heap w (substModule c)) @ new \<and>
                map fst new = [i] \<and>
                substitutions c @ [s] = substitutions c @
                  [length (substs (heap w (substModule c))) ..<
                   length (substs (heap w (substModule c))) + length new]"
      by (rule exI [of _ "[(i, block b)]"]) (simp add: s w')
    show ?thesis
      unfolding appended_def using d ex by (simp add: cw cw' w')
  qed
qed

lemma gen_loop_appended:
  "gen_loop h i l cw = Inr cw' \<Longrightarrow> appended (kept i (map fst l)) cw cw'"
proof (induction l arbitrary: i cw)
  case Nil
  then show ?case by (simp add: appended_refl)
next
  case (Cons a l)
  obtain t p where a: "a = (t, p)" by (cases a)
  from Cons.prems a obtain cw1 where
    step: "gen_arg h i t p cw = Inr cw1" and
    rest: "gen_loop h (i + 1) l cw1 = Inr cw'"
    by (cases "gen_arg h i t p cw") auto
  from appended_trans [OF gen_arg_appended [OF step] Cons.IH [OF rest]] a
  show ?case by simp
qed

lemma kept_filter: "kept i ts = [k \<leftarrow> [i..<i + length ts]. dispatched (ts ! (k - i))]"
proof (induction ts arbitrary: i)
  case Nil
  then show ?case by simp
next
  case (Cons t ts)
  have shift: "dispatched (ts ! (k - Suc i)) = dispatched ((t # ts) ! (k - i))"
    if "Suc i \<le> k" for k
  proof -
    from that have "k - i = Suc (k - Suc i)" by arith
    then show ?thesis by simp
  qed
  have "[k \<leftarrow> [Suc i..<Suc i + length ts]. dispatched (ts ! (k - Suc i))] =
        [k \<leftarrow> [Suc i..<Suc i + length ts]. dispatched ((t # ts) ! (k - i))]"
  proof (rule filter_cong)
    fix k
    assume "k \<in> set [Suc i..<Suc i + length ts]"
    then have "Suc i \<le> k" by (simp del: upt_Suc)
    then show "dispatched (ts ! (k - Suc i)) = dispatched ((t # ts) ! (k - i))"
      by (rule shift)
  qed simp
  with Cons.IH [of "Suc i"]
  have "kept i (t # ts) =
          (if dispatched t then [i] else []) @
          [k \<leftarrow> [Suc i..<Suc i + length ts]. dispatched ((t # ts) ! (k - i))]"
    by (simp only: kept.simps)
  also have "\<dots> = [k \<leftarrow> i # [Suc i..<Suc i + length ts]. dispatched ((t # ts) ! (k - i))]"
    by (cases "dispatched t") (simp_all del: upt_Suc)
  also have "i # [Suc i..<Suc i + length ts] = [i..<i + length (t # ts)]"
    by (subst (2) upt_rec) simp
  finally show ?case .
qed

lemma kept_zip:
  "kept 0 (map fst (zip inputs arguments)) =
     [k \<leftarrow> [0..<min (length inputs) (length arguments)]. dispatched (inputs ! k)]"
proof -
  have "[k \<leftarrow> [0..<min (length inputs) (length arguments)].
            dispatched (map fst (zip inputs arguments) ! k)] =
        [k \<leftarrow> [0..<min (length inputs) (length arguments)]. dispatched (inputs ! k)]"
    by (rule filter_cong) auto
  then show ?thesis by (simp add: kept_filter)
qed

lemma gen_appended:
  assumes "gen h arguments cw = Inr cw'"
  shows "\<exists>inputs.
           map_of (funcs (heap (snd cw) (sourceModule (fst cw))))
             (cudaqGenPrefixName h @ kernelName (fst cw)) = Some inputs \<and>
           appended [k \<leftarrow> [0..<min (length inputs) (length arguments)]. dispatched (inputs ! k)]
             cw cw'"
proof (cases "map_of (funcs (heap (snd cw) (sourceModule (fst cw))))
                (cudaqGenPrefixName h @ kernelName (fst cw))")
  case None
  with assms show ?thesis by (simp add: gen_def)
next
  case (Some inputs)
  with assms have "gen_loop h 0 (zip inputs arguments) cw = Inr cw'"
    by (simp add: gen_def)
  from gen_loop_appended [OF this] Some show ?thesis
    by (simp add: kept_zip)
qed


lemma gen_arg_source_indep:
  assumes ne: "sourceModule c \<noteq> substModule c"
    and at: "map_of (attrs m2) (targetDataLayoutAttrName h) =
             map_of (attrs (heap w (sourceModule c))) (targetDataLayoutAttrName h)"
  shows "gen_arg h i t p (c, with_source (sourceModule c) m2 w) =
         (case gen_arg h i t p (c, w) of
            Inl e \<Rightarrow> Inl e
          | Inr (c', w') \<Rightarrow> Inr (c', with_source (sourceModule c) m2 w'))"
proof -
  let ?dl = "case map_of (attrs (heap w (sourceModule c))) (targetDataLayoutAttrName h) of
               Some attr \<Rightarrow> attr | None \<Rightarrow> []"
  show ?thesis
  proof (cases "gen_switch h ?dl (platform c) t p")
    case None
    then show ?thesis by (simp add: gen_arg_def at with_source_def)
  next
    case (Some g)
    show ?thesis
    proof (cases "g \<lparr>globals = mod_globals (heap w (substModule c)), block = []\<rparr>")
      case (Inl e)
      with Some ne show ?thesis
        by (simp add: gen_arg_def buildSubst_def at Let_def with_source_def)
    next
      case (Inr r)
      obtain v b where "r = (v, b)" by (cases r)
      with Inr Some ne show ?thesis
        by (simp add: gen_arg_def buildSubst_def at Let_def with_source_def fun_upd_twist)
    qed
  qed
qed

lemma gen_loop_source_indep:
  assumes "sourceModule c \<noteq> substModule c"
    and "map_of (attrs m2) (targetDataLayoutAttrName h) =
         map_of (attrs (heap w (sourceModule c))) (targetDataLayoutAttrName h)"
  shows "gen_loop h i l (c, with_source (sourceModule c) m2 w) =
         (case gen_loop h i l (c, w) of
            Inl e \<Rightarrow> Inl e
          | Inr (c', w') \<Rightarrow> Inr (c', with_source (sourceModule c) m2 w'))"
  using assms
proof (induction l arbitrary: i c w)
  case Nil
  show ?case by simp
next
  case (Cons a l)
  obtain t p where a: "a = (t, p)" by (cases a)
  note step = gen_arg_source_indep [OF Cons.prems, of i t p]
  show ?case
  proof (cases "gen_arg h i t p (c, w)")
    case (Inl e)
    with step a show ?thesis by simp
  next
    case (Inr cw1)
    obtain c1 w1 where cw1: "cw1 = (c1, w1)" by (cases cw1)
    from gen_arg_appended [OF Inr] cw1 have
      src: "sourceModule c1 = sourceModule c" and sub: "substModule c1 = substModule c" and
      frame: "\<forall>x. x \<noteq> substModule c \<longrightarrow> heap w1 x = heap w x"
      by (simp_all add: appended_def)
    from frame Cons.prems(1) have same: "heap w1 (sourceModule c) = heap w (sourceModule c)"
      by simp
    have ne1: "sourceModule c1 \<noteq> substModule c1"
      using Cons.prems(1) src sub by simp
    have at1: "map_of (attrs m2) (targetDataLayoutAttrName h) =
               map_of (attrs (heap w1 (sourceModule c1))) (targetDataLayoutAttrName h)"
      using Cons.prems(2) src same by simp
    from Cons.IH [OF ne1 at1, of "i + 1", unfolded src] step Inr cw1 a show ?thesis
      by simp
  qed
qed

lemma gen_source_indep:
  assumes "sourceModule c \<noteq> substModule c"
    and "map_of (attrs m2) (targetDataLayoutAttrName h) =
         map_of (attrs (heap w (sourceModule c))) (targetDataLayoutAttrName h)"
    and "map_of (funcs m2) (cudaqGenPrefixName h @ kernelName c) =
         map_of (funcs (heap w (sourceModule c))) (cudaqGenPrefixName h @ kernelName c)"
  shows "gen h arguments (c, with_source (sourceModule c) m2 w) =
         (case gen h arguments (c, w) of
            Inl e \<Rightarrow> Inl e
          | Inr (c', w') \<Rightarrow> Inr (c', with_source (sourceModule c) m2 w'))"
proof -
  have "heap (with_source (sourceModule c) m2 w) (sourceModule c) = m2"
    by (simp add: with_source_def)
  with assms(3) gen_loop_source_indep [OF assms(1,2)] show ?thesis
    by (simp add: gen_def split: option.splits)
qed

text \<open>
  Claim C1, amended: when \<open>gen\<close> returns, the substitution records it appended are, in
  order, those of the parameter indices \<open>k\<close> (below the number of formal types and of
  arguments) whose type is one the switch dispatches; a record is appended for such a
  parameter whether or not its emitter produced a value, and none for the others.
\<close>

theorem gen_records_dispatched_parameters:
  assumes "gen h arguments (c, w) = Inr (c', w')"
  shows "\<exists>inputs new.
           map_of (funcs (heap w (sourceModule c))) (cudaqGenPrefixName h @ kernelName c) =
             Some inputs \<and>
           substs (heap w' (substModule c)) = substs (heap w (substModule c)) @ new \<and>
           map fst new =
             [k \<leftarrow> [0..<min (length inputs) (length arguments)]. dispatched (inputs ! k)] \<and>
           substitutions c' = substitutions c @
             [length (substs (heap w (substModule c))) ..<
              length (substs (heap w (substModule c))) + length new]"
proof -
  from gen_appended [OF assms] obtain inputs where
    look: "map_of (funcs (heap w (sourceModule c))) (cudaqGenPrefixName h @ kernelName c) =
             Some inputs" and
    app: "appended [k \<leftarrow> [0..<min (length inputs) (length arguments)]. dispatched (inputs ! k)]
            (c, w) (c', w')"
    by auto
  from app obtain new where
    "substs (heap w' (substModule c)) = substs (heap w (substModule c)) @ new"
    "map fst new =
       [k \<leftarrow> [0..<min (length inputs) (length arguments)]. dispatched (inputs ! k)]"
    "substitutions c' = substitutions c @
       [length (substs (heap w (substModule c))) ..<
        length (substs (heap w (substModule c))) + length new]"
    unfolding appended_def fst_conv snd_conv by (elim conjE exE)
  with look show ?thesis by (intro exI [of _ inputs] exI [of _ new] conjI)
qed

text \<open>
  Claim C9: when \<open>gen\<close> returns on a converter whose substitution module is not its
  source module (as the constructor makes it), the source module is unchanged, and so is
  every module other than the substitution module; the substitution module only gains
  operations at its end; and \<open>gen\<close> reads nothing of the source module but the kernel's
  signature and the data-layout attribute: with any other source module that agrees on
  these two, it does the same.
\<close>

theorem gen_leaves_source_module:
  assumes "gen h arguments (c, w) = Inr (c', w')"
    and "sourceModule c \<noteq> substModule c"
  shows "heap w' (sourceModule c) = heap w (sourceModule c) \<and>
         sourceModule c' = sourceModule c \<and>
         substModule c' = substModule c \<and>
         (\<forall>x. x \<noteq> substModule c \<longrightarrow> heap w' x = heap w x) \<and>
         attrs (heap w' (substModule c)) = attrs (heap w (substModule c)) \<and>
         funcs (heap w' (substModule c)) = funcs (heap w (substModule c)) \<and>
         (\<exists>new. substs (heap w' (substModule c)) = substs (heap w (substModule c)) @ new) \<and>
         (\<forall>m2. map_of (attrs m2) (targetDataLayoutAttrName h) =
                 map_of (attrs (heap w (sourceModule c))) (targetDataLayoutAttrName h) \<and>
               map_of (funcs m2) (cudaqGenPrefixName h @ kernelName c) =
                 map_of (funcs (heap w (sourceModule c))) (cudaqGenPrefixName h @ kernelName c)
               \<longrightarrow>
               gen h arguments (c, with_source (sourceModule c) m2 w) =
                 Inr (c', with_source (sourceModule c) m2 w'))"
proof -
  from gen_appended [OF assms(1)] obtain idx where
    app: "appended idx (c, w) (c', w')"
    by auto
  then have frame: "\<forall>x. x \<noteq> substModule c \<longrightarrow> heap w' x = heap w x"
    and "sourceModule c' = sourceModule c" and "substModule c' = substModule c"
    and "attrs (heap w' (substModule c)) = attrs (heap w (substModule c))"
    and "funcs (heap w' (substModule c)) = funcs (heap w (substModule c))"
    and "\<exists>new. substs (heap w' (substModule c)) = substs (heap w (substModule c)) @ new"
    unfolding appended_def fst_conv snd_conv by blast+
  moreover from frame assms(2) have "heap w' (sourceModule c) = heap w (sourceModule c)"
    by simp
  moreover have "\<forall>m2. map_of (attrs m2) (targetDataLayoutAttrName h) =
                 map_of (attrs (heap w (sourceModule c))) (targetDataLayoutAttrName h) \<and>
               map_of (funcs m2) (cudaqGenPrefixName h @ kernelName c) =
                 map_of (funcs (heap w (sourceModule c))) (cudaqGenPrefixName h @ kernelName c)
               \<longrightarrow>
               gen h arguments (c, with_source (sourceModule c) m2 w) =
                 Inr (c', with_source (sourceModule c) m2 w')"
    using gen_source_indep [OF assms(2), of _ h w arguments] assms(1) by simp
  ultimately show ?thesis by (intro conjI)
qed


lemma empty_vector_reads:
  "load_le (mem (sample_host [])) 0x100 8 = 0" "load_le (mem (sample_host [])) 0x108 8 = 0"
  by (simp_all add: load_le_def sample_host_def upt_0_8)

lemma empty_vector_skipped:
  "genConstant_stdvec (sample_host []) [] local_simulator (IntegerType 32) 0x100 b = Inr (None, b)"
proof -
  have pb: "pointer_bytes (sample_host []) = 8"
    by (simp add: sample_host_def)
  show ?thesis
    using empty_vector_reads
    by (simp add: genConstant_stdvec.simps pb to_signed_def Let_def)
qed

text \<open>
  Claim C1, as stated, fails for an empty vector: the emission is skipped (no value), yet
  \<open>buildSubst\<close> returns the operation it created, and \<open>gen\<close> appends the record for the
  parameter 0, with an empty block.
\<close>

theorem gen_empty_vector_counterexample:
  "dispatchSubtype (sample_host []) [] local_simulator (StdvecType (IntegerType 32)) 0x100
      empty_bst = Inr (None, empty_bst) \<and>
   (\<exists>c' w'. gen (sample_host []) [0x100]
               (ArgumentConverter_ctor ''kernel'' 0 local_simulator
                  (sample_world [StdvecType (IntegerType 32)])) = Inr (c', w') \<and>
            substitutions c' = [0] \<and>
            substs (heap w' (substModule c')) = [(0, [])])"
proof -
  have names: "cudaqGenPrefixName (sample_host []) = ''__nvqpp__mlirgen__''"
    "targetDataLayoutAttrName (sample_host []) = ''llvm.data_layout''"
    by (simp_all add: sample_host_def)
  have "gen (sample_host []) [0x100]
          (ArgumentConverter_ctor ''kernel'' 0 local_simulator
             (sample_world [StdvecType (IntegerType 32)])) =
        Inr (\<lparr>sourceModule = 0, substModule = 1, kernelName = ''kernel'',
              platform = local_simulator, substitutions = [0]\<rparr>,
             \<lparr>heap = (heap (sample_world [StdvecType (IntegerType 32)]))
                      (1 := \<lparr>attrs = [], funcs = [], mod_globals = [], substs = [(0, [])]\<rparr>),
              next_module = 2\<rparr>)"
    by (simp add: gen_def gen_arg_def gen_switch_def buildSubst_def ArgumentConverter_ctor_def
        sample_world_def empty_module_def names empty_vector_skipped Let_def)
  then show ?thesis
    by (simp add: dispatchSubtype.simps empty_vector_skipped)
qed


lemma mixed_kernel_run:
  "gen (sample_host [(0x10, 7)]) [0x10, 0x20, 0x100]
     (\<lparr>sourceModule = 0, substModule = 1, kernelName = ''kernel'',
       platform = local_simulator, substitutions = []\<rparr>,
      \<lparr>heap = (heap (sample_world mixed_inputs))(1 := empty_module), next_module = 2\<rparr>) =
   Inr (\<lparr>sourceModule = 0, substModule = 1, kernelName = ''kernel'',
         platform = local_simulator, substitutions = [0, 1]\<rparr>,
        \<lparr>heap = (heap (sample_world mixed_inputs))
                 (1 := \<lparr>attrs = [], funcs = [], mod_globals = [],
                        substs = [(0, [ConstantIntOp 7 32]), (2, [])]\<rparr>),
         next_module = 2\<rparr>)"
proof -
  let ?h = "sample_host [(0x10, 7)]"
  have names: "cudaqGenPrefixName ?h = ''__nvqpp__mlirgen__''"
    "targetDataLayoutAttrName ?h = ''llvm.data_layout''"
    by (simp_all add: sample_host_def)
  have rd: "read_int ?h 4 0x10 = 7"
    by (simp add: read_int_def load_le_def to_signed_def sample_host_def upt_0_4)
  have ld: "load_le (mem ?h) 0x100 8 = 0" "load_le (mem ?h) 0x108 8 = 0"
    by (simp_all add: load_le_def sample_host_def upt_0_8)
  have pb: "pointer_bytes ?h = 8"
    by (simp add: sample_host_def)
  have skip: "genConstant_stdvec ?h [] local_simulator (IntegerType 32) 0x100 b = Inr (None, b)"
    for b
    using ld by (simp add: genConstant_stdvec.simps pb to_signed_def Let_def)
  show ?thesis
    by (simp add: gen_def gen_arg_def gen_switch_def buildSubst_def mixed_inputs_def
        sample_world_def empty_module_def names rd skip genConstant_int32_def
        genIntegerConstant_def emit_def Let_def numeral_2_eq_2 [symmetric])
qed

lemma mixed_kernel_ctor:
  "ArgumentConverter_ctor ''kernel'' 0 local_simulator (sample_world mixed_inputs) =
     (\<lparr>sourceModule = 0, substModule = 1, kernelName = ''kernel'',
       platform = local_simulator, substitutions = []\<rparr>,
      \<lparr>heap = (heap (sample_world mixed_inputs))(1 := empty_module), next_module = 2\<rparr>)"
  by (simp add: ArgumentConverter_ctor_def sample_world_def)

theorem gen_records_dispatched_parameters_witness:
  "\<exists>c' w'. gen (sample_host [(0x10, 7)]) [0x10, 0x20, 0x100]
              (ArgumentConverter_ctor ''kernel'' 0 local_simulator (sample_world mixed_inputs)) =
            Inr (c', w') \<and>
          map fst (substs (heap w' 1)) = [0, 2] \<and>
          [k \<leftarrow> [0..<3]. dispatched (mixed_inputs ! k)] = [0, 2] \<and>
          substitutions c' = [0, 1]"
proof -
  have "gen (sample_host [(0x10, 7)]) [0x10, 0x20, 0x100]
          (ArgumentConverter_ctor ''kernel'' 0 local_simulator (sample_world mixed_inputs)) =
        Inr (\<lparr>sourceModule = 0, substModule = 1, kernelName = ''kernel'',
              platform = local_simulator, substitutions = [0, 1]\<rparr>,
             \<lparr>heap = (heap (sample_world mixed_inputs))
                 (1 := \<lparr>attrs = [], funcs = [], mod_globals = [],
                        substs = [(0, [ConstantIntOp 7 32]), (2, [])]\<rparr>),
              next_module = 2\<rparr>)"
    unfolding mixed_kernel_ctor by (rule mixed_kernel_run)
  with gen_records_dispatched_parameters [OF mixed_kernel_run] show ?thesis
    by (simp add: mixed_inputs_def upt_rec)
qed

theorem gen_leaves_source_module_witness:
  "\<exists>c' w'. gen (sample_host [(0x10, 7)]) [0x10, 0x20, 0x100]
              (ArgumentConverter_ctor ''kernel'' 0 local_simulator (sample_world mixed_inputs)) =
            Inr (c', w') \<and>
          heap w' 0 = heap (sample_world mixed_inputs) 0 \<and>
          sourceModule c' = 0 \<and> substModule c' = 1 \<and>
          substs (heap w' 1) = [(0, [ConstantIntOp 7 32]), (2, [])]"
proof -
  have "gen (sample_host [(0x10, 7)]) [0x10, 0x20, 0x100]
          (ArgumentConverter_ctor ''kernel'' 0 local_simulator (sample_world mixed_inputs)) =
        Inr (\<lparr>sourceModule = 0, substModule = 1, kernelName = ''kernel'',
              platform = local_simulator, substitutions = [0, 1]\<rparr>,
             \<lparr>heap = (heap (sample_world mixed_inputs))
                 (1 := \<lparr>attrs = [], funcs = [], mod_globals = [],
                        substs = [(0, [ConstantIntOp 7 32]), (2, [])]\<rparr>),
              next_module = 2\<rparr>)"
    unfolding mixed_kernel_ctor by (rule mixed_kernel_run)
  moreover have "(0::nat) \<noteq> 1" by simp
  moreover note gen_leaves_source_module [OF mixed_kernel_run]
  ultimately show ?thesis by simp
qed

section \<open>Properties of the layered schedule\<close>

lemma fold_span:
  assumes "fold (\<lambda>control (min_dwire, max_dwire).
                    (min control min_dwire, max control max_dwire)) cs (lo0 :: int, hi0 :: int) = (lo, hi)"
  shows "lo \<le> lo0 \<and> hi0 \<le> hi \<and> (\<forall>c\<in>set cs. lo \<le> c \<and> c \<le> hi) \<and>
         (lo = lo0 \<or> lo \<in> set cs) \<and> (hi = hi0 \<or> hi \<in> set cs)"
  using assms
proof (induction cs arbitrary: lo0 hi0)
  case Nil
  then show ?case by simp
next
  case (Cons c cs)
  from Cons.prems have
    "fold (\<lambda>control (min_dwire, max_dwire).
              (min control min_dwire, max control max_dwire)) cs (min c lo0, max c hi0) = (lo, hi)"
    by simp
  from Cons.IH [OF this] show ?case
    by (auto simp: min_def max_def split: if_splits)
qed

lemma sorted_hd_last:
  assumes "sorted (xs :: int list)" and "xs \<noteq> []"
  shows "(\<forall>x\<in>set xs. hd xs \<le> x \<and> x \<le> last xs) \<and> hd xs \<in> set xs \<and> last xs \<in> set xs"
proof -
  from assms(2) obtain y ys where xs: "xs = y # ys" by (cases xs) auto
  with assms(1) have lo: "\<forall>x\<in>set xs. hd xs \<le> x" by auto
  from assms(2) obtain zs z where xs': "xs = zs @ [z]" by (cases xs rule: rev_cases) auto
  with assms(1) have hi: "\<forall>x\<in>set xs. x \<le> last xs" by (auto simp: sorted_append)
  from lo hi assms(2) show ?thesis by simp
qed

lemma wire_span_covers:
  assumes "wire_span inst = Inr (lo, hi)"
  shows "lo \<le> hi \<and>
         (\<forall>q\<in>set (targets inst) \<union> set (controls inst). lo \<le> q \<and> q \<le> hi) \<and>
         lo \<in> set (targets inst) \<union> set (controls inst) \<and>
         hi \<in> set (targets inst) \<union> set (controls inst)"
proof -
  let ?ws = "sort (targets inst)"
  from assms have ne: "?ws \<noteq> []"
    by (auto simp: wire_span_def Let_def split: if_splits)
  with assms have f: "fold (\<lambda>control (min_dwire, max_dwire).
                    (min control min_dwire, max control max_dwire)) (controls inst)
                    (hd ?ws, last ?ws) = (lo, hi)"
    by (simp add: wire_span_def Let_def)
  have s: "(\<forall>x\<in>set ?ws. hd ?ws \<le> x \<and> x \<le> last ?ws) \<and> hd ?ws \<in> set ?ws \<and> last ?ws \<in> set ?ws"
    by (rule sorted_hd_last) (simp_all add: ne)
  then have hl: "hd ?ws \<le> last ?ws" by blast
  from fold_span [OF f] have
    a: "lo \<le> hd ?ws" "last ?ws \<le> hi" and
    b: "\<forall>c\<in>set (controls inst). lo \<le> c \<and> c \<le> hi" and
    c: "lo = hd ?ws \<or> lo \<in> set (controls inst)" and
    d: "hi = last ?ws \<or> hi \<in> set (controls inst)"
    by simp_all
  from s have t: "\<forall>x\<in>set (targets inst). hd ?ws \<le> x \<and> x \<le> last ?ws"
    and hm: "hd ?ws \<in> set (targets inst)" and lm: "last ?ws \<in> set (targets inst)"
    by simp_all
  from a hl have "lo \<le> hi" by linarith
  moreover have "\<forall>q\<in>set (targets inst) \<union> set (controls inst). lo \<le> q \<and> q \<le> hi"
  proof
    fix q assume "q \<in> set (targets inst) \<union> set (controls inst)"
    then show "lo \<le> q \<and> q \<le> hi"
    proof
      assume "q \<in> set (targets inst)"
      with t have "hd ?ws \<le> q \<and> q \<le> last ?ws" by simp
      with a show ?thesis by linarith
    next
      assume "q \<in> set (controls inst)"
      with b show ?thesis by simp
    qed
  qed
  moreover from c hm have "lo \<in> set (targets inst) \<union> set (controls inst)" by auto
  moreover from d lm have "hi \<in> set (targets inst) \<union> set (controls inst)" by auto
  ultimately show ?thesis by (intro conjI)
qed


lemma max_layer_result:
  "max_layer wl i hi acc = Inr m \<Longrightarrow>
     (\<forall>k. i \<le> k \<and> k \<le> hi \<longrightarrow> 0 \<le> k \<and> nat k < length wl \<and> wl ! nat k \<le> m) \<and>
     acc \<le> m \<and> (m = acc \<or> (\<exists>k. i \<le> k \<and> k \<le> hi \<and> m = wl ! nat k))"
proof (induction wl i hi acc rule: max_layer.induct)
  case (1 wl i hi acc)
  show ?case
  proof (cases "i \<le> hi")
    case False
    with "1.prems" show ?thesis by (auto simp: max_layer.simps)
  next
    case True
    with "1.prems" have ok: "0 \<le> i \<and> nat i < length wl"
      by (simp add: max_layer.simps split: if_splits)
    with True "1.prems" have rec: "max_layer wl (i + 1) hi (max acc (wl ! nat i)) = Inr m"
      by (simp add: max_layer.simps)
    from "1.IH" [OF True ok rec] have
      ih1: "\<forall>k. i + 1 \<le> k \<and> k \<le> hi \<longrightarrow> 0 \<le> k \<and> nat k < length wl \<and> wl ! nat k \<le> m" and
      ih2: "max acc (wl ! nat i) \<le> m" and
      ih3: "m = max acc (wl ! nat i) \<or> (\<exists>k. i + 1 \<le> k \<and> k \<le> hi \<and> m = wl ! nat k)"
      by simp_all
    have a: "\<forall>k. i \<le> k \<and> k \<le> hi \<longrightarrow> 0 \<le> k \<and> nat k < length wl \<and> wl ! nat k \<le> m"
    proof (intro allI impI)
      fix k assume k: "i \<le> k \<and> k \<le> hi"
      show "0 \<le> k \<and> nat k < length wl \<and> wl ! nat k \<le> m"
      proof (cases "k = i")
        case True
        with ok ih2 show ?thesis by simp
      next
        case False
        with k have "i + 1 \<le> k \<and> k \<le> hi" by simp
        with ih1 show ?thesis by blast
      qed
    qed
    from ih2 have b: "acc \<le> m" by simp
    have c: "m = acc \<or> (\<exists>k. i \<le> k \<and> k \<le> hi \<and> m = wl ! nat k)"
    proof -
      from ih3 show ?thesis
      proof
        assume "m = max acc (wl ! nat i)"
        then have "m = acc \<or> m = wl ! nat i" by (simp add: max_def split: if_splits)
        with True show ?thesis by auto
      next
        assume "\<exists>k. i + 1 \<le> k \<and> k \<le> hi \<and> m = wl ! nat k"
        then obtain k where "i + 1 \<le> k" "k \<le> hi" "m = wl ! nat k" by blast
        then have "i \<le> k \<and> k \<le> hi \<and> m = wl ! nat k" by simp
        then show ?thesis by blast
      qed
    qed
    from a b c show ?thesis by (intro conjI)
  qed
qed

lemma set_layer_result:
  "set_layer wl i hi layer = Inr wl' \<Longrightarrow>
     length wl' = length wl \<and>
     (\<forall>k. i \<le> k \<and> k \<le> hi \<longrightarrow> 0 \<le> k \<and> nat k < length wl \<and> wl' ! nat k = layer) \<and>
     (\<forall>j<length wl. \<not> (i \<le> int j \<and> int j \<le> hi) \<longrightarrow> wl' ! j = wl ! j)"
proof (induction wl i hi layer arbitrary: wl' rule: set_layer.induct)
  case (1 wl i hi layer)
  show ?case
  proof (cases "i \<le> hi")
    case False
    with "1.prems" show ?thesis by (auto simp: set_layer.simps)
  next
    case True
    with "1.prems" have ok: "0 \<le> i \<and> nat i < length wl"
      by (simp add: set_layer.simps split: if_splits)
    with True "1.prems" have rec: "set_layer (wl[nat i := layer]) (i + 1) hi layer = Inr wl'"
      by (simp add: set_layer.simps)
    from "1.IH" [OF True ok rec] have
      ih1: "length wl' = length wl" and
      ih2: "\<forall>k. i + 1 \<le> k \<and> k \<le> hi \<longrightarrow> 0 \<le> k \<and> nat k < length wl \<and> wl' ! nat k = layer" and
      ih3: "\<forall>j<length wl. \<not> (i + 1 \<le> int j \<and> int j \<le> hi) \<longrightarrow> wl' ! j = wl[nat i := layer] ! j"
      by simp_all
    have a: "\<forall>k. i \<le> k \<and> k \<le> hi \<longrightarrow> 0 \<le> k \<and> nat k < length wl \<and> wl' ! nat k = layer"
    proof (intro allI impI)
      fix k assume k: "i \<le> k \<and> k \<le> hi"
      show "0 \<le> k \<and> nat k < length wl \<and> wl' ! nat k = layer"
      proof (cases "k = i")
        case True
        from ok have "\<not> (i + 1 \<le> int (nat i) \<and> int (nat i) \<le> hi)" by simp
        with ih3 ok have "wl' ! nat i = wl[nat i := layer] ! nat i" by blast
        with ok True show ?thesis by simp
      next
        case False
        with k have "i + 1 \<le> k \<and> k \<le> hi" by simp
        with ih2 show ?thesis by blast
      qed
    qed
    have b: "\<forall>j<length wl. \<not> (i \<le> int j \<and> int j \<le> hi) \<longrightarrow> wl' ! j = wl ! j"
    proof (intro allI impI)
      fix j assume j: "j < length wl" and out: "\<not> (i \<le> int j \<and> int j \<le> hi)"
      from out have "\<not> (i + 1 \<le> int j \<and> int j \<le> hi)" by simp
      with ih3 j have "wl' ! j = wl[nat i := layer] ! j" by blast
      moreover have "j \<noteq> nat i"
      proof
        assume "j = nat i"
        with ok have "int j = i" by simp
        with out True show False by simp
      qed
      ultimately show "wl' ! j = wl ! j" by simp
    qed
    from ih1 a b show ?thesis by (intro conjI)
  qed
qed


lemma spans_overlapD:
  assumes "spans_overlap a b"
  shows "\<exists>lo1 hi1 lo2 hi2 k. wire_span a = Inr (lo1, hi1) \<and> wire_span b = Inr (lo2, hi2) \<and>
           lo1 \<le> k \<and> k \<le> hi1 \<and> lo2 \<le> k \<and> k \<le> hi2"
proof (cases "wire_span a")
  case (Inl e)
  with assms show ?thesis by (simp add: spans_overlap_def)
next
  case ia: (Inr pa)
  obtain lo1 hi1 where pa: "pa = (lo1, hi1)" by (cases pa)
  show ?thesis
  proof (cases "wire_span b")
    case (Inl e)
    with assms ia pa show ?thesis by (simp add: spans_overlap_def)
  next
    case ib: (Inr pb)
    obtain lo2 hi2 where pb: "pb = (lo2, hi2)" by (cases pb)
    from assms ia ib pa pb have le: "max lo1 lo2 \<le> min hi1 hi2"
      by (simp add: spans_overlap_def)
    then have "lo1 \<le> max lo1 lo2 \<and> max lo1 lo2 \<le> hi1 \<and>
               lo2 \<le> max lo1 lo2 \<and> max lo1 lo2 \<le> hi2"
      by simp
    with ia ib pa pb show ?thesis by blast
  qed
qed

lemma place_result:
  assumes "place ref inst s = Inr s'"
  shows "\<exists>lo hi m wl'.
           wire_span inst = Inr (lo, hi) \<and>
           max_layer (wire_layer s) lo hi (- 1) = Inr m \<and>
           set_layer (wire_layer s) lo hi (m + 1) = Inr wl' \<and>
           nat (m + 1) \<le> length (layers s) \<and>
           s' = \<lparr>layers =
                   (if nat (m + 1) = length (layers s) then layers s @ [[]] else layers s)
                     [nat (m + 1) :=
                        (if nat (m + 1) = length (layers s) then layers s @ [[]] else layers s)
                          ! nat (m + 1) @ [ref]],
                 wire_layer = wl'\<rparr>"
proof (cases "wire_span inst")
  case (Inl e)
  with assms show ?thesis by (simp add: place_def)
next
  case (Inr sp)
  obtain lo hi where sp: "sp = (lo, hi)" by (cases sp)
  show ?thesis
  proof (cases "max_layer (wire_layer s) lo hi (- 1)")
    case (Inl e)
    with assms Inr sp show ?thesis by (simp add: place_def)
  next
    case m: (Inr m)
    let ?ls = "if nat (m + 1) = length (layers s) then layers s @ [[]] else layers s"
    from assms Inr sp m have lt: "nat (m + 1) < length ?ls"
      by (simp add: place_def Let_def split: if_splits)
    then have le: "nat (m + 1) \<le> length (layers s)"
      by (simp split: if_splits)
    show ?thesis
    proof (cases "set_layer (wire_layer s) lo hi (m + 1)")
      case (Inl e)
      with assms Inr sp m lt show ?thesis by (simp add: place_def Let_def)
    next
      case wl: (Inr wl')
      from assms Inr sp m lt wl have
        "s' = \<lparr>layers = ?ls[nat (m + 1) := ?ls ! nat (m + 1) @ [ref]], wire_layer = wl'\<rparr>"
        by (simp add: place_def Let_def)
      with Inr sp m wl le show ?thesis by blast
    qed
  qed
qed

lemma layers_update:
  assumes "q \<le> length L"
  shows "length ((if q = length L then L @ [[]] else L)
                   [q := (if q = length L then L @ [[]] else L) ! q @ [r]]) =
           (if q = length L then Suc (length L) else length L) \<and>
         (\<forall>l. l < (if q = length L then Suc (length L) else length L) \<longrightarrow>
            set ((if q = length L then L @ [[]] else L)
                   [q := (if q = length L then L @ [[]] else L) ! q @ [r]] ! l) =
              (if l = q then {r} else {}) \<union> (if l < length L then set (L ! l) else {}))"
proof (cases "q = length L")
  case True
  then show ?thesis by (auto simp: nth_append nth_list_update)
next
  case False
  with assms have "q < length L" by simp
  with False show ?thesis by (auto simp: nth_list_update)
qed


lemma place_preserves_inv:
  assumes inv: "sched_inv tr n s" and pl: "place n (tr ! n) s = Inr s'"
  shows "sched_inv tr (Suc n) s'"
proof -
  let ?L = "layers s" and ?wl = "wire_layer s"
  from place_result [OF pl] obtain lo hi m wl' where
    sp: "wire_span (tr ! n) = Inr (lo, hi)" and
    ml: "max_layer ?wl lo hi (- 1) = Inr m" and
    sl: "set_layer ?wl lo hi (m + 1) = Inr wl'" and
    q: "nat (m + 1) \<le> length ?L" and
    s': "s' = \<lparr>layers =
                   (if nat (m + 1) = length ?L then ?L @ [[]] else ?L)
                     [nat (m + 1) :=
                        (if nat (m + 1) = length ?L then ?L @ [[]] else ?L) ! nat (m + 1) @ [n]],
                 wire_layer = wl'\<rparr>"
    by blast
  let ?q = "nat (m + 1)"
  from max_layer_result [OF ml] have
    mx: "\<forall>k. lo \<le> k \<and> k \<le> hi \<longrightarrow> 0 \<le> k \<and> nat k < length ?wl \<and> ?wl ! nat k \<le> m" and
    m1: "- 1 \<le> m"
    by simp_all
  from set_layer_result [OF sl] have
    len: "length wl' = length ?wl" and
    ins: "\<forall>k. lo \<le> k \<and> k \<le> hi \<longrightarrow> 0 \<le> k \<and> nat k < length ?wl \<and> wl' ! nat k = m + 1" and
    out: "\<forall>j<length ?wl. \<not> (lo \<le> int j \<and> int j \<le> hi) \<longrightarrow> wl' ! j = ?wl ! j"
    by simp_all
  from m1 have qm: "int ?q = m + 1" by simp
  have mono: "?wl ! j \<le> wl' ! j" if j: "j < length ?wl" for j
  proof (cases "lo \<le> int j \<and> int j \<le> hi")
    case True
    with mx have "?wl ! nat (int j) \<le> m" by blast
    moreover from ins True have "wl' ! nat (int j) = m + 1" by blast
    ultimately show ?thesis by simp
  next
    case False
    with out j show ?thesis by simp
  qed
  have wl's: "wire_layer s' = wl'" using s' by simp
  from layers_update [OF q, of n] s' have
    L'len: "length (layers s') = (if ?q = length ?L then Suc (length ?L) else length ?L)" and
    L'set: "\<forall>l. l < length (layers s') \<longrightarrow>
              set (layers s' ! l) =
                (if l = ?q then {n} else {}) \<union> (if l < length ?L then set (?L ! l) else {})"
    by simp_all
  from q L'len have q': "?q < length (layers s')" by (simp split: if_splits)
  from inv have
    i1: "\<forall>x\<in>set ?wl. - 1 \<le> x" and
    i2: "\<forall>l<length ?L. \<forall>j\<in>set (?L ! l).
           j < n \<and>
           (\<exists>lo hi. wire_span (tr ! j) = Inr (lo, hi) \<and>
              (\<forall>k. lo \<le> k \<and> k \<le> hi \<longrightarrow>
                   0 \<le> k \<and> nat k < length ?wl \<and> int l \<le> ?wl ! nat k))" and
    i3: "\<forall>j<n. \<exists>l<length ?L. j \<in> set (?L ! l)" and
    i4: "\<forall>l<length ?L. \<forall>j\<in>set (?L ! l). \<forall>k\<in>set (?L ! l).
           j \<noteq> k \<longrightarrow> \<not> spans_overlap (tr ! j) (tr ! k)"
    unfolding sched_inv_def by blast+
  have member: "(l = ?q \<and> j = n) \<or> (l < length ?L \<and> j \<in> set (?L ! l))"
    if "l < length (layers s')" and "j \<in> set (layers s' ! l)" for l j
    using that L'set by (auto split: if_splits)
  have a: "\<forall>x\<in>set (wire_layer s'). - 1 \<le> x"
  proof
    fix x assume "x \<in> set (wire_layer s')"
    then obtain j where j: "j < length wl'" "x = wl' ! j"
      by (auto simp: wl's in_set_conv_nth)
    from j len mono have "?wl ! j \<le> x" by simp
    moreover from i1 j len have "- 1 \<le> ?wl ! j" by simp
    ultimately show "- 1 \<le> x" by simp
  qed
  have new_span: "\<forall>k. lo \<le> k \<and> k \<le> hi \<longrightarrow>
                    0 \<le> k \<and> nat k < length (wire_layer s') \<and> int ?q \<le> wire_layer s' ! nat k"
    using ins len qm wl's by simp
  have b: "\<forall>l<length (layers s'). \<forall>j\<in>set (layers s' ! l).
           j < Suc n \<and>
           (\<exists>lo hi. wire_span (tr ! j) = Inr (lo, hi) \<and>
              (\<forall>k. lo \<le> k \<and> k \<le> hi \<longrightarrow>
                   0 \<le> k \<and> nat k < length (wire_layer s') \<and> int l \<le> wire_layer s' ! nat k))"
  proof (intro allI impI ballI)
    fix l j assume l: "l < length (layers s')" and j: "j \<in> set (layers s' ! l)"
    from member [OF l j]
    show "j < Suc n \<and>
           (\<exists>lo hi. wire_span (tr ! j) = Inr (lo, hi) \<and>
              (\<forall>k. lo \<le> k \<and> k \<le> hi \<longrightarrow>
                   0 \<le> k \<and> nat k < length (wire_layer s') \<and> int l \<le> wire_layer s' ! nat k))"
    proof
      assume "l = ?q \<and> j = n"
      with sp new_span show ?thesis by blast
    next
      assume old: "l < length ?L \<and> j \<in> set (?L ! l)"
      with i2 obtain lo' hi' where
        jn: "j < n" and sp': "wire_span (tr ! j) = Inr (lo', hi')" and
        cov: "\<forall>k. lo' \<le> k \<and> k \<le> hi' \<longrightarrow>
                0 \<le> k \<and> nat k < length ?wl \<and> int l \<le> ?wl ! nat k"
        by blast
      have "\<forall>k. lo' \<le> k \<and> k \<le> hi' \<longrightarrow>
              0 \<le> k \<and> nat k < length (wire_layer s') \<and> int l \<le> wire_layer s' ! nat k"
      proof (intro allI impI)
        fix k assume "lo' \<le> k \<and> k \<le> hi'"
        with cov have c: "0 \<le> k" "nat k < length ?wl" "int l \<le> ?wl ! nat k" by blast+
        from mono [OF c(2)] c(3) have "int l \<le> wl' ! nat k" by simp
        with c len wl's show "0 \<le> k \<and> nat k < length (wire_layer s') \<and>
            int l \<le> wire_layer s' ! nat k"
          by simp
      qed
      with jn sp' show ?thesis by auto
    qed
  qed
  have c: "\<forall>j<Suc n. \<exists>l<length (layers s'). j \<in> set (layers s' ! l)"
  proof (intro allI impI)
    fix j assume "j < Suc n"
    then have "j = n \<or> j < n" by auto
    then show "\<exists>l<length (layers s'). j \<in> set (layers s' ! l)"
    proof
      assume "j = n"
      with q' L'set have "j \<in> set (layers s' ! ?q)" by simp
      with q' show ?thesis by blast
    next
      assume "j < n"
      with i3 obtain l where l: "l < length ?L" "j \<in> set (?L ! l)" by blast
      from l L'len have l': "l < length (layers s')" by (simp split: if_splits)
      with L'set l have "j \<in> set (layers s' ! l)" by simp
      with l' show ?thesis by blast
    qed
  qed
  have clash: "\<not> spans_overlap (tr ! j) (tr ! n) \<and> \<not> spans_overlap (tr ! n) (tr ! j)"
    if old: "?q < length ?L" "j \<in> set (?L ! ?q)" for j
  proof -
    from i2 old obtain lo' hi' where
      sp': "wire_span (tr ! j) = Inr (lo', hi')" and
      cov: "\<forall>k. lo' \<le> k \<and> k \<le> hi' \<longrightarrow>
              0 \<le> k \<and> nat k < length ?wl \<and> int ?q \<le> ?wl ! nat k"
      by blast
    have no: "\<not> (lo' \<le> k \<and> k \<le> hi' \<and> lo \<le> k \<and> k \<le> hi)" for k
    proof
      assume k: "lo' \<le> k \<and> k \<le> hi' \<and> lo \<le> k \<and> k \<le> hi"
      with cov have "int ?q \<le> ?wl ! nat k" by blast
      moreover from mx k have "?wl ! nat k \<le> m" by blast
      ultimately show False using qm by simp
    qed
    have "\<not> spans_overlap (tr ! j) (tr ! n)"
    proof
      assume "spans_overlap (tr ! j) (tr ! n)"
      from spans_overlapD [OF this] sp sp' no show False by auto
    qed
    moreover have "\<not> spans_overlap (tr ! n) (tr ! j)"
    proof
      assume "spans_overlap (tr ! n) (tr ! j)"
      from spans_overlapD [OF this] sp sp' no show False by auto
    qed
    ultimately show ?thesis by simp
  qed
  have e: "\<forall>l<length (layers s'). \<forall>j\<in>set (layers s' ! l). \<forall>k\<in>set (layers s' ! l).
           j \<noteq> k \<longrightarrow> \<not> spans_overlap (tr ! j) (tr ! k)"
  proof (intro allI impI ballI)
    fix l j k
    assume l: "l < length (layers s')" and j: "j \<in> set (layers s' ! l)"
      and k: "k \<in> set (layers s' ! l)" and jk: "j \<noteq> k"
    from member [OF l j] member [OF l k] jk
    consider "l = ?q" "j = n" "l < length ?L" "k \<in> set (?L ! l)"
      | "l = ?q" "k = n" "l < length ?L" "j \<in> set (?L ! l)"
      | "l < length ?L" "j \<in> set (?L ! l)" "k \<in> set (?L ! l)"
      by blast
    then show "\<not> spans_overlap (tr ! j) (tr ! k)"
    proof cases
      case 1
      with clash [of k] show ?thesis by simp
    next
      case 2
      with clash [of j] show ?thesis by simp
    next
      case 3
      with i4 jk show ?thesis by blast
    qed
  qed
  from a b c e show ?thesis unfolding sched_inv_def by (intro conjI)
qed


lemma place_all_append:
  "place_all r (xs @ ys) s =
     (case place_all r xs s of
        Inl e \<Rightarrow> Inl e
      | Inr s1 \<Rightarrow> place_all (r + length xs) ys s1)"
proof (induction xs arbitrary: r s)
  case Nil
  then show ?case by simp
next
  case (Cons x xs)
  show ?case
  proof (cases "place r x s")
    case (Inl e)
    then show ?thesis by simp
  next
    case (Inr s1)
    with Cons.IH [of "r + 1" s1] show ?thesis by (simp split: sum.splits)
  qed
qed

lemma place_all_inv:
  "place_all (length pre) rest s = Inr s' \<Longrightarrow> sched_inv (pre @ rest) (length pre) s \<Longrightarrow>
     sched_inv (pre @ rest) (length pre + length rest) s'"
proof (induction rest arbitrary: pre s)
  case Nil
  then show ?case by simp
next
  case (Cons inst rest)
  from Cons.prems(1) obtain s1 where
    p: "place (length pre) inst s = Inr s1" and
    r: "place_all (length pre + 1) rest s1 = Inr s'"
    by (cases "place (length pre) inst s") auto
  have nth: "(pre @ inst # rest) ! length pre = inst" by simp
  from place_preserves_inv [OF Cons.prems(2)] p nth
  have i1: "sched_inv (pre @ inst # rest) (Suc (length pre)) s1" by simp
  from Cons.IH [of "pre @ [inst]" s1] r i1 show ?case by simp
qed

lemma sched_inv_init: "sched_inv tr 0 \<lparr>layers = [], wire_layer = replicate n (- 1)\<rparr>"
  by (simp add: sched_inv_def)

lemma draw_layers_inv:
  assumes "draw_layers num_wires trace = Inr s"
  shows "sched_inv trace (length trace) s"
  using place_all_inv [of "[]" trace _ s] assms sched_inv_init [of trace num_wires]
  by (simp add: draw_layers_def)

lemma place_keeps:
  assumes pl: "place r inst s = Inr s'" and l: "l < length (layers s)"
    and j: "j \<in> set (layers s ! l)"
  shows "l < length (layers s') \<and> j \<in> set (layers s' ! l)"
proof -
  from place_result [OF pl] obtain m wl' where
    q: "nat (m + 1) \<le> length (layers s)" and
    s': "s' = \<lparr>layers =
                   (if nat (m + 1) = length (layers s) then layers s @ [[]] else layers s)
                     [nat (m + 1) :=
                        (if nat (m + 1) = length (layers s) then layers s @ [[]] else layers s)
                          ! nat (m + 1) @ [r]],
                 wire_layer = wl'\<rparr>"
    by blast
  from layers_update [OF q, of r] s' have
    L'len: "length (layers s') =
              (if nat (m + 1) = length (layers s) then Suc (length (layers s))
               else length (layers s))" and
    L'set: "\<forall>l. l < length (layers s') \<longrightarrow>
              set (layers s' ! l) =
                (if l = nat (m + 1) then {r} else {}) \<union>
                (if l < length (layers s) then set (layers s ! l) else {})"
    by simp_all
  from l L'len have l': "l < length (layers s')" by (simp split: if_splits)
  with L'set l j show ?thesis by simp
qed

lemma place_all_keeps:
  "place_all r rest s = Inr s' \<Longrightarrow> l < length (layers s) \<Longrightarrow> j \<in> set (layers s ! l) \<Longrightarrow>
     l < length (layers s') \<and> j \<in> set (layers s' ! l)"
proof (induction rest arbitrary: r s)
  case Nil
  then show ?case by simp
next
  case (Cons inst rest)
  from Cons.prems(1) obtain s1 where
    p: "place r inst s = Inr s1" and
    q: "place_all (r + 1) rest s1 = Inr s'"
    by (cases "place r inst s") auto
  from place_keeps [OF p Cons.prems(2,3)] have
    "l < length (layers s1)" "j \<in> set (layers s1 ! l)" by simp_all
  from Cons.IH [OF q this] show ?case .
qed

lemma place_layer:
  assumes pl: "place r inst s = Inr s'" and ge: "\<forall>x\<in>set (wire_layer s). - 1 \<le> x"
  shows "\<exists>lo hi. wire_span inst = Inr (lo, hi) \<and>
           0 \<le> 1 + Max ((\<lambda>i. wire_layer s ! nat i) ` {lo..hi}) \<and>
           nat (1 + Max ((\<lambda>i. wire_layer s ! nat i) ` {lo..hi})) < length (layers s') \<and>
           r \<in> set (layers s' ! nat (1 + Max ((\<lambda>i. wire_layer s ! nat i) ` {lo..hi}))) \<and>
           (\<forall>i\<in>{lo..hi}. wire_layer s' ! nat i = 1 + Max ((\<lambda>i. wire_layer s ! nat i) ` {lo..hi}))"
proof -
  let ?wl = "wire_layer s"
  from place_result [OF pl] obtain lo hi m wl' where
    sp: "wire_span inst = Inr (lo, hi)" and
    ml: "max_layer ?wl lo hi (- 1) = Inr m" and
    sl: "set_layer ?wl lo hi (m + 1) = Inr wl'" and
    q: "nat (m + 1) \<le> length (layers s)" and
    s': "s' = \<lparr>layers =
                   (if nat (m + 1) = length (layers s) then layers s @ [[]] else layers s)
                     [nat (m + 1) :=
                        (if nat (m + 1) = length (layers s) then layers s @ [[]] else layers s)
                          ! nat (m + 1) @ [r]],
                 wire_layer = wl'\<rparr>"
    by blast
  from wire_span_covers [OF sp] have lohi: "lo \<le> hi" by simp
  from max_layer_result [OF ml] have
    mx: "\<forall>k. lo \<le> k \<and> k \<le> hi \<longrightarrow> 0 \<le> k \<and> nat k < length ?wl \<and> ?wl ! nat k \<le> m" and
    m1: "- 1 \<le> m" and
    mw: "m = - 1 \<or> (\<exists>k. lo \<le> k \<and> k \<le> hi \<and> m = ?wl ! nat k)"
    by simp_all
  have mem: "m \<in> (\<lambda>i. ?wl ! nat i) ` {lo..hi}"
  proof (cases "\<exists>k. lo \<le> k \<and> k \<le> hi \<and> m = ?wl ! nat k")
    case True
    then show ?thesis by auto
  next
    case False
    with mw have m: "m = - 1" by simp
    from mx lohi have "nat lo < length ?wl" "?wl ! nat lo \<le> m" by simp_all
    moreover from this(1) ge have "- 1 \<le> ?wl ! nat lo" by simp
    ultimately have "m = ?wl ! nat lo" using m by simp
    with lohi show ?thesis by auto
  qed
  have "Max ((\<lambda>i. ?wl ! nat i) ` {lo..hi}) = m"
  proof (rule Max_eqI)
    show "finite ((\<lambda>i. ?wl ! nat i) ` {lo..hi})" by simp
    show "y \<le> m" if "y \<in> (\<lambda>i. ?wl ! nat i) ` {lo..hi}" for y
      using that mx by auto
    show "m \<in> (\<lambda>i. ?wl ! nat i) ` {lo..hi}" by (rule mem)
  qed
  then have mx_eq: "1 + Max ((\<lambda>i. ?wl ! nat i) ` {lo..hi}) = m + 1" by simp
  from set_layer_result [OF sl] have
    ins: "\<forall>k. lo \<le> k \<and> k \<le> hi \<longrightarrow> 0 \<le> k \<and> nat k < length ?wl \<and> wl' ! nat k = m + 1"
    by simp
  from layers_update [OF q, of r] s' have
    L'len: "length (layers s') =
              (if nat (m + 1) = length (layers s) then Suc (length (layers s))
               else length (layers s))" and
    L'set: "\<forall>l. l < length (layers s') \<longrightarrow>
              set (layers s' ! l) =
                (if l = nat (m + 1) then {r} else {}) \<union>
                (if l < length (layers s) then set (layers s ! l) else {})"
    by simp_all
  from q L'len have q': "nat (m + 1) < length (layers s')" by (simp split: if_splits)
  with L'set have r: "r \<in> set (layers s' ! nat (m + 1))" by simp
  have w: "\<forall>i\<in>{lo..hi}. wire_layer s' ! nat i = m + 1"
    using ins s' by simp
  from m1 have m0: "0 \<le> m + 1" by simp
  have "wire_span inst = Inr (lo, hi) \<and>
           0 \<le> 1 + Max ((\<lambda>i. wire_layer s ! nat i) ` {lo..hi}) \<and>
           nat (1 + Max ((\<lambda>i. wire_layer s ! nat i) ` {lo..hi})) < length (layers s') \<and>
           r \<in> set (layers s' ! nat (1 + Max ((\<lambda>i. wire_layer s ! nat i) ` {lo..hi}))) \<and>
           (\<forall>i\<in>{lo..hi}. wire_layer s' ! nat i = 1 + Max ((\<lambda>i. wire_layer s ! nat i) ` {lo..hi}))"
    unfolding mx_eq using sp q' r w m0 by (intro conjI)
  then show ?thesis by (intro exI)
qed


lemma draw_layers_prefix:
  assumes dl: "draw_layers num_wires trace = Inr s" and k: "k < length trace"
  shows "\<exists>sk sk'. draw_layers num_wires (take k trace) = Inr sk \<and>
           place k (trace ! k) sk = Inr sk' \<and>
           draw_layers num_wires (take (Suc k) trace) = Inr sk' \<and>
           place_all (Suc k) (drop (Suc k) trace) sk' = Inr s"
proof -
  let ?init = "\<lparr>layers = [], wire_layer = replicate num_wires (- 1)\<rparr>"
  from k have mn: "min (length trace) k = k" by simp
  have eq: "place_all 0 (take k trace @ xs) ?init =
              (case place_all 0 (take k trace) ?init of
                 Inl e \<Rightarrow> Inl e
               | Inr s1 \<Rightarrow> place_all k xs s1)" for xs
    by (simp add: place_all_append mn split: sum.splits)
  from dl have whole: "place_all 0 (take k trace @ (trace ! k # drop (Suc k) trace)) ?init = Inr s"
    by (simp add: draw_layers_def id_take_nth_drop [OF k, symmetric])
  show ?thesis
  proof (cases "place_all 0 (take k trace) ?init")
    case (Inl e)
    with whole eq [of "trace ! k # drop (Suc k) trace"] show ?thesis by simp
  next
    case sk: (Inr sk)
    with whole eq [of "trace ! k # drop (Suc k) trace"]
    have rest: "place_all k (trace ! k # drop (Suc k) trace) sk = Inr s" by simp
    show ?thesis
    proof (cases "place k (trace ! k) sk")
      case (Inl e)
      with rest show ?thesis by simp
    next
      case p: (Inr sk')
      with rest have r: "place_all (Suc k) (drop (Suc k) trace) sk' = Inr s" by simp
      from sk p eq [of "[trace ! k]"]
      have "place_all 0 (take k trace @ [trace ! k]) ?init = Inr sk'" by simp
      with k have "draw_layers num_wires (take (Suc k) trace) = Inr sk'"
        by (simp add: draw_layers_def take_Suc_conv_app_nth)
      with sk p r show ?thesis by (simp add: draw_layers_def)
    qed
  qed
qed

text \<open>
  Claim C8: when the separation into layers of a trace returns the schedule \<open>s\<close>, every
  instruction \<open>k\<close> has an inclusive wire span \<open>[lo, hi]\<close> that covers all its targets and
  controls; with \<open>sk\<close> the schedule of the first \<open>k\<close> instructions (\<open>wire_layer\<close> is \<open>-1\<close>
  everywhere before the first), \<open>k\<close> is a member of the layer of \<open>s\<close> of index \<open>1 + max\<close> of
  \<open>wire_layer\<close> of \<open>sk\<close> over the span, and after its placement \<open>wire_layer\<close> is that index on
  every wire of the span.  Consequently no two different instructions whose spans
  overlap are in the same layer.
\<close>

theorem draw_layers_schedule:
  assumes "draw_layers num_wires trace = Inr s"
  shows "draw_layers num_wires [] =
           Inr \<lparr>layers = [], wire_layer = replicate num_wires (- 1)\<rparr> \<and>
         (\<forall>k<length trace. \<exists>sk sk' lo hi.
            draw_layers num_wires (take k trace) = Inr sk \<and>
            draw_layers num_wires (take (Suc k) trace) = Inr sk' \<and>
            wire_span (trace ! k) = Inr (lo, hi) \<and> lo \<le> hi \<and>
            (\<forall>q\<in>set (targets (trace ! k)) \<union> set (controls (trace ! k)). lo \<le> q \<and> q \<le> hi) \<and>
            0 \<le> 1 + Max ((\<lambda>i. wire_layer sk ! nat i) ` {lo..hi}) \<and>
            nat (1 + Max ((\<lambda>i. wire_layer sk ! nat i) ` {lo..hi})) < length (layers s) \<and>
            k \<in> set (layers s ! nat (1 + Max ((\<lambda>i. wire_layer sk ! nat i) ` {lo..hi}))) \<and>
            (\<forall>i\<in>{lo..hi}.
               wire_layer sk' ! nat i = 1 + Max ((\<lambda>i. wire_layer sk ! nat i) ` {lo..hi}))) \<and>
         (\<forall>j<length trace. \<forall>k<length trace.
            j \<noteq> k \<and> spans_overlap (trace ! j) (trace ! k) \<longrightarrow>
            \<not> (\<exists>l<length (layers s). j \<in> set (layers s ! l) \<and> k \<in> set (layers s ! l)))"
proof (intro conjI allI impI)
  show "draw_layers num_wires [] =
          Inr \<lparr>layers = [], wire_layer = replicate num_wires (- 1)\<rparr>"
    by (simp add: draw_layers_def)
next
  fix k assume k: "k < length trace"
  from draw_layers_prefix [OF assms k] obtain sk sk' where
    sk: "draw_layers num_wires (take k trace) = Inr sk" and
    p: "place k (trace ! k) sk = Inr sk'" and
    sk': "draw_layers num_wires (take (Suc k) trace) = Inr sk'" and
    r: "place_all (Suc k) (drop (Suc k) trace) sk' = Inr s"
    by blast
  from draw_layers_inv [OF sk] have ge: "\<forall>x\<in>set (wire_layer sk). - 1 \<le> x"
    by (simp add: sched_inv_def)
  from place_layer [OF p ge] obtain lo hi where
    sp: "wire_span (trace ! k) = Inr (lo, hi)" and
    l0: "0 \<le> 1 + Max ((\<lambda>i. wire_layer sk ! nat i) ` {lo..hi})" and
    ll: "nat (1 + Max ((\<lambda>i. wire_layer sk ! nat i) ` {lo..hi})) < length (layers sk')" and
    lm: "k \<in> set (layers sk' ! nat (1 + Max ((\<lambda>i. wire_layer sk ! nat i) ` {lo..hi})))" and
    lw: "\<forall>i\<in>{lo..hi}.
           wire_layer sk' ! nat i = 1 + Max ((\<lambda>i. wire_layer sk ! nat i) ` {lo..hi})"
    by blast
  from place_all_keeps [OF r ll lm] have
    fin: "nat (1 + Max ((\<lambda>i. wire_layer sk ! nat i) ` {lo..hi})) < length (layers s)"
      "k \<in> set (layers s ! nat (1 + Max ((\<lambda>i. wire_layer sk ! nat i) ` {lo..hi})))"
    by simp_all
  from wire_span_covers [OF sp] have
    cov: "lo \<le> hi"
      "\<forall>q\<in>set (targets (trace ! k)) \<union> set (controls (trace ! k)). lo \<le> q \<and> q \<le> hi"
    by simp_all
  have "draw_layers num_wires (take k trace) = Inr sk \<and>
            draw_layers num_wires (take (Suc k) trace) = Inr sk' \<and>
            wire_span (trace ! k) = Inr (lo, hi) \<and> lo \<le> hi \<and>
            (\<forall>q\<in>set (targets (trace ! k)) \<union> set (controls (trace ! k)). lo \<le> q \<and> q \<le> hi) \<and>
            0 \<le> 1 + Max ((\<lambda>i. wire_layer sk ! nat i) ` {lo..hi}) \<and>
            nat (1 + Max ((\<lambda>i. wire_layer sk ! nat i) ` {lo..hi})) < length (layers s) \<and>
            k \<in> set (layers s ! nat (1 + Max ((\<lambda>i. wire_layer sk ! nat i) ` {lo..hi}))) \<and>
            (\<forall>i\<in>{lo..hi}.
               wire_layer sk' ! nat i = 1 + Max ((\<lambda>i. wire_layer sk ! nat i) ` {lo..hi}))"
    using sk sk' sp cov l0 fin lw by (intro conjI)
  then show "\<exists>sk sk' lo hi.
            draw_layers num_wires (take k trace) = Inr sk \<and>
            draw_layers num_wires (take (Suc k) trace) = Inr sk' \<and>
            wire_span (trace ! k) = Inr (lo, hi) \<and> lo \<le> hi \<and>
            (\<forall>q\<in>set (targets (trace ! k)) \<union> set (controls (trace ! k)). lo \<le> q \<and> q \<le> hi) \<and>
            0 \<le> 1 + Max ((\<lambda>i. wire_layer sk ! nat i) ` {lo..hi}) \<and>
            nat (1 + Max ((\<lambda>i. wire_layer sk ! nat i) ` {lo..hi})) < length (layers s) \<and>
            k \<in> set (layers s ! nat (1 + Max ((\<lambda>i. wire_layer sk ! nat i) ` {lo..hi}))) \<and>
            (\<forall>i\<in>{lo..hi}.
               wire_layer sk' ! nat i = 1 + Max ((\<lambda>i. wire_layer sk ! nat i) ` {lo..hi}))"
    by (intro exI)
next
  fix j k
  assume "j < length trace" "k < length trace"
    and jk: "j \<noteq> k \<and> spans_overlap (trace ! j) (trace ! k)"
  from draw_layers_inv [OF assms] have
    e: "\<forall>l<length (layers s). \<forall>j\<in>set (layers s ! l). \<forall>k\<in>set (layers s ! l).
          j \<noteq> k \<longrightarrow> \<not> spans_overlap (trace ! j) (trace ! k)"
    unfolding sched_inv_def by blast
  show "\<not> (\<exists>l<length (layers s). j \<in> set (layers s ! l) \<and> k \<in> set (layers s ! l))"
  proof
    assume "\<exists>l<length (layers s). j \<in> set (layers s ! l) \<and> k \<in> set (layers s ! l)"
    then obtain l where "l < length (layers s)" "j \<in> set (layers s ! l)" "k \<in> set (layers s ! l)"
      by blast
    with e jk show False by blast
  qed
qed

lemma sample_trace_layers:
  "draw_layers 2 sample_trace = Inr \<lparr>layers = [[0, 1], [2]], wire_layer = [1, 1]\<rparr>"
  by (simp add: draw_layers_def sample_trace_def place_def wire_span_def max_layer.simps
      set_layer.simps Let_def numeral_2_eq_2)

theorem draw_layers_schedule_witness:
  "draw_layers 2 sample_trace = Inr \<lparr>layers = [[0, 1], [2]], wire_layer = [1, 1]\<rparr> \<and>
   spans_overlap (sample_trace ! 0) (sample_trace ! 2) \<and>
   \<not> (\<exists>l<2. 0 \<in> set ([[0 :: nat, 1], [2]] ! l) \<and> 2 \<in> set ([[0 :: nat, 1], [2]] ! l))"
proof -
  from draw_layers_schedule [OF sample_trace_layers] have
    "\<forall>j<length sample_trace. \<forall>k<length sample_trace.
       j \<noteq> k \<and> spans_overlap (sample_trace ! j) (sample_trace ! k) \<longrightarrow>
       \<not> (\<exists>l<length (layers \<lparr>layers = [[0, 1], [2]], wire_layer = [1, 1]\<rparr>).
             j \<in> set (layers \<lparr>layers = [[0, 1], [2]], wire_layer = [1, 1]\<rparr> ! l) \<and>
             k \<in> set (layers \<lparr>layers = [[0, 1], [2]], wire_layer = [1, 1]\<rparr> ! l))"
    by (elim conjE)
  moreover have ov: "spans_overlap (sample_trace ! 0) (sample_trace ! 2)"
    by (simp add: spans_overlap_def sample_trace_def wire_span_def Let_def)
  moreover have "(0::nat) < length sample_trace" "(2::nat) < length sample_trace"
    by (simp_all add: sample_trace_def)
  ultimately have
    "\<not> (\<exists>l<length (layers \<lparr>layers = [[0, 1], [2]], wire_layer = [1, 1]\<rparr>).
             0 \<in> set (layers \<lparr>layers = [[0, 1], [2]], wire_layer = [1, 1]\<rparr> ! l) \<and>
             2 \<in> set (layers \<lparr>layers = [[0, 1], [2]], wire_layer = [1, 1]\<rparr> ! l))"
    by (metis zero_neq_numeral)
  with ov sample_trace_layers show ?thesis by simp
qed

end
